theory Spec2Isabelle
  imports Complex_Main "HOL-Library.Sublist" "HOL-Library.AList"
begin

section \<open>Python strings and the library functions the service calls\<close>

text \<open>
  A Python \<open>str\<close> is a sequence of code points. The contact number, the one string that
  is matched against a class of the whole Unicode range (\<open>\D\<close>), is modelled in full: as
  a list of code points, each an integer. Every other string is modelled as a
  \<open>string\<close>, that is a list of \<open>char\<close>, where a \<open>char\<close> stands for one code point in the
  range U+0000 .. U+00FF, read through \<open>of_char\<close>; the character tests on those strings
  (\<open>str.isspace\<close>, \<open>str.lower\<close>) are Python's on that range, and the classes of
  \<open>_safe_filename\<close> and the characters \<open>os.path\<close> looks for are ASCII. The bytes of an
  uploaded file are a \<open>string\<close> as well.
\<close>

type_synonym bytes = string

type_synonym unicode = "int list"

text \<open>The code points of a string of the range U+0000 .. U+00FF.\<close>

definition codepoints :: "string \<Rightarrow> unicode" where
  "codepoints s = map of_char s"

definition in_range :: "char \<Rightarrow> char \<Rightarrow> char \<Rightarrow> bool" where
  "in_range lo hi c = ((of_char lo :: nat) \<le> of_char c \<and> (of_char c :: nat) \<le> of_char hi)"

text \<open>
  The class \<open>\d\<close> of \<open>re\<close> in a \<open>str\<close> pattern compiled without \<open>re.ASCII\<close>: the decimal
  digits of Unicode (general category Nd), which are 0-9 and the digits of the other
  scripts. The table is that of Unicode 14.0, the one CPython 3.11 carries, as the ranges
  of code points it consists of; \<open>\D\<close> is its complement.
\<close>

definition Nd_ranges :: "(int \<times> int) list" where
  "Nd_ranges =
     [(48, 57), (1632, 1641), (1776, 1785), (1984, 1993), (2406, 2415), (2534, 2543),
      (2662, 2671), (2790, 2799), (2918, 2927), (3046, 3055), (3174, 3183), (3302, 3311),
      (3430, 3439), (3558, 3567), (3664, 3673), (3792, 3801), (3872, 3881), (4160, 4169),
      (4240, 4249), (6112, 6121), (6160, 6169), (6470, 6479), (6608, 6617), (6784, 6793),
      (6800, 6809), (6992, 7001), (7088, 7097), (7232, 7241), (7248, 7257), (42528, 42537),
      (43216, 43225), (43264, 43273), (43472, 43481), (43504, 43513), (43600, 43609),
      (44016, 44025), (65296, 65305), (66720, 66729), (68912, 68921), (69734, 69743),
      (69872, 69881), (69942, 69951), (70096, 70105), (70384, 70393), (70736, 70745),
      (70864, 70873), (71248, 71257), (71360, 71369), (71472, 71481), (71904, 71913),
      (72016, 72025), (72784, 72793), (73040, 73049), (73120, 73129), (92768, 92777),
      (92864, 92873), (93008, 93017), (120782, 120831), (123200, 123209), (123632, 123641),
      (125264, 125273), (130032, 130041)]"

definition re_digit :: "int \<Rightarrow> bool" where
  "re_digit c = list_ex (\<lambda>(lo, hi). lo \<le> c \<and> c \<le> hi) Nd_ranges"

text \<open>The class \<open>[a-zA-Z0-9._-]\<close> that \<open>_safe_filename\<close> negates.\<close>

definition safe_class :: "char \<Rightarrow> bool" where
  "safe_class c = (in_range CHR ''a'' CHR ''z'' c \<or> in_range CHR ''A'' CHR ''Z'' c \<or>
     in_range CHR ''0'' CHR ''9'' c \<or> c = CHR ''.'' \<or> c = CHR ''_'' \<or> c = CHR ''-'')"

text \<open>\<open>str.isspace\<close> for one character: TAB..CR, FS..US, space, NEL and NBSP.\<close>

definition isspace :: "char \<Rightarrow> bool" where
  "isspace c = (let n = of_char c :: nat
                in (9 \<le> n \<and> n \<le> 13) \<or> (28 \<le> n \<and> n \<le> 32) \<or> n = 133 \<or> n = 160)"

text \<open>\<open>str.lower\<close>: A..Z and the capital letters U+00C0 .. U+00DE (but the
  multiplication sign U+00D7) move up by 32; every other character stays.\<close>

definition lower_char :: "char \<Rightarrow> char" where
  "lower_char c = (let n = of_char c :: nat
                   in if (65 \<le> n \<and> n \<le> 90) \<or> (192 \<le> n \<and> n \<le> 222 \<and> n \<noteq> 215)
                      then char_of (n + 32) else c)"

definition lower :: "string \<Rightarrow> string" where
  "lower s = map lower_char s"

text \<open>\<open>re.sub(C, repl, s)\<close> for a pattern that is one character class \<open>C\<close>: every
  matching character is replaced.\<close>

definition re_sub_each :: "('a \<Rightarrow> bool) \<Rightarrow> 'a list \<Rightarrow> 'a list \<Rightarrow> 'a list" where
  "re_sub_each P repl s = concat (map (\<lambda>c. if P c then repl else [c]) s)"

text \<open>\<open>re.sub(C+, repl, s)\<close>: every maximal run of matching characters is replaced
  by one copy of \<open>repl\<close> (the match is greedy and matches do not overlap).\<close>

function re_sub_runs :: "(char \<Rightarrow> bool) \<Rightarrow> string \<Rightarrow> string \<Rightarrow> string" where
  "re_sub_runs P repl [] = []"
| "re_sub_runs P repl (c # cs) =
     (if P c then repl @ re_sub_runs P repl (dropWhile P cs) else c # re_sub_runs P repl cs)"
  by pat_completeness auto
termination
  by (relation "measure (\<lambda>(P, repl, s). length s)")
     (auto simp: length_dropWhile_le less_Suc_eq_le)

text \<open>\<open>s.strip(chars)\<close>, the set of characters given as a predicate; \<open>s.strip()\<close>
  strips white space.\<close>

definition strip_chars :: "(char \<Rightarrow> bool) \<Rightarrow> string \<Rightarrow> string" where
  "strip_chars P s = rev (dropWhile P (rev (dropWhile P s)))"

definition strip :: "string \<Rightarrow> string" where
  "strip s = strip_chars isspace s"

text \<open>\<open>s.split(sep)\<close> for a separator of one character: the empty string gives one
  empty piece.\<close>

fun split_on :: "char \<Rightarrow> string \<Rightarrow> string list" where
  "split_on sep [] = [[]]"
| "split_on sep (c # cs) =
     (if c = sep then [] # split_on sep cs
      else (case split_on sep cs of [] \<Rightarrow> [[c]] | p # ps \<Rightarrow> (c # p) # ps))"

text \<open>\<open>str(n)\<close> of an integer, as the f-string of \<open>_get_unique_save_path\<close> renders the id.\<close>

definition digit_char :: "nat \<Rightarrow> char" where
  "digit_char d = char_of (48 + d)"

fun str_nat :: "nat \<Rightarrow> string" where
  "str_nat n = (if n < 10 then [digit_char n] else str_nat (n div 10) @ [digit_char (n mod 10)])"

definition str_int :: "int \<Rightarrow> string" where
  "str_int i = (if i < 0 then CHR ''-'' # str_nat (nat (- i)) else str_nat (nat i))"

subsection \<open>\<open>os.path\<close> on POSIX\<close>

text \<open>\<open>s.rfind(c)\<close>: the last index of \<open>c\<close>, or \<open>-1\<close>.\<close>

definition rfind :: "string \<Rightarrow> char \<Rightarrow> int" where
  "rfind p c = (if c \<in> set p
                then int (length p) - 1 - int (length (takeWhile (\<lambda>x. x \<noteq> c) (rev p)))
                else - 1)"

text \<open>The loop of \<open>genericpath._splitext\<close> that skips leading dots: \<open>True\<close> when it
  returns from inside, at a character that is not a dot.\<close>

function splitext_loop :: "string \<Rightarrow> nat \<Rightarrow> nat \<Rightarrow> bool" where
  "splitext_loop p filenameIndex dotIndex =
     (if filenameIndex < dotIndex
      then (if p ! filenameIndex \<noteq> CHR ''.'' then True
            else splitext_loop p (filenameIndex + 1) dotIndex)
      else False)"
  by pat_completeness auto
termination
  by (relation "measure (\<lambda>(p, filenameIndex, dotIndex). dotIndex - filenameIndex)") auto

definition splitext :: "string \<Rightarrow> string \<times> string" where
  "splitext p =
     (let sepIndex = rfind p CHR ''/'';
          dotIndex = rfind p CHR ''.''
      in if dotIndex > sepIndex \<and> splitext_loop p (nat (sepIndex + 1)) (nat dotIndex)
         then (take (nat dotIndex) p, drop (nat dotIndex) p)
         else (p, []))"

text \<open>\<open>os.path.join(a, b)\<close> and \<open>os.path.basename(p)\<close>.\<close>

definition path_join :: "string \<Rightarrow> string \<Rightarrow> string" where
  "path_join a b =
     (if b \<noteq> [] \<and> hd b = CHR ''/'' then b
      else if a = [] \<or> last a = CHR ''/'' then a @ b
      else a @ ''/'' @ b)"

definition basename :: "string \<Rightarrow> string" where
  "basename p = drop (nat (rfind p CHR ''/'' + 1)) p"

section \<open>Normalizer and filename resolver\<close>

definition UPLOAD_DIR :: string where
  "UPLOAD_DIR = ''uploads''"

definition ALLOWED_EXTENSIONS :: "string set" where
  "ALLOWED_EXTENSIONS = {''.pdf'', ''.doc'', ''.docx''}"

definition normalize_phone :: "unicode \<Rightarrow> unicode" where
  "normalize_phone phone = re_sub_each (\<lambda>c. \<not> re_digit c) [] phone"

definition safe_filename :: "string \<Rightarrow> string" where
  "safe_filename name =
     (let name1 = strip_chars (\<lambda>c. c = CHR ''_'')
                    (re_sub_runs (\<lambda>c. \<not> safe_class c) ''_'' name)
      in if name1 = [] then ''resume'' else name1)"

text \<open>The loop of \<open>_parse_skills\<close>, with its two variables \<open>seen\<close> and \<open>unique\<close>.\<close>

fun unique_loop :: "string list \<Rightarrow> string set \<Rightarrow> string list \<Rightarrow> string list" where
  "unique_loop [] seen unique = unique"
| "unique_loop (s # ss) seen unique =
     (let key = lower s
      in if key \<notin> seen then unique_loop ss (insert key seen) (unique @ [s])
         else unique_loop ss seen unique)"

definition parse_skills :: "string \<Rightarrow> string list" where
  "parse_skills skills_raw =
     (let skills = map strip (split_on CHR '','' skills_raw);
          skills = filter (\<lambda>s. s \<noteq> []) skills
      in unique_loop skills {} [])"

text \<open>\<open>_get_unique_save_path\<close>; \<open>os.path.exists\<close> is the parameter \<open>path_exists\<close>.\<close>

definition get_unique_save_path :: "(string \<Rightarrow> bool) \<Rightarrow> int \<Rightarrow> string \<Rightarrow> string" where
  "get_unique_save_path path_exists candidate_id original_filename =
     (let safe_name = safe_filename original_filename;
          (base, ext) = splitext safe_name;
          path = path_join UPLOAD_DIR safe_name
      in if \<not> path_exists path then path
         else (let new_name = base @ ''_('' @ str_int candidate_id @ '')'' @ ext
               in path_join UPLOAD_DIR new_name))"

section \<open>The candidate model and its validators\<close>

record date =
  year :: nat
  month :: nat
  day :: nat

text \<open>\<open>a > b\<close> on \<open>datetime.date\<close>: year, month and day compared in this order.\<close>

definition date_gt :: "date \<Rightarrow> date \<Rightarrow> bool" where
  "date_gt a b = (year a > year b \<or> (year a = year b \<and>
                   (month a > month b \<or> (month a = month b \<and> day a > day b))))"

text \<open>
  A Python \<open>float\<close> is read as the real number it stands for; NaN and the infinities are
  outside the model. A \<open>datetime\<close> is a count of microseconds, a natural number.
\<close>

text \<open>What a field can be rejected for: a \<open>Field(...)\<close> bound (with the field's name), or
  the \<open>ValueError\<close> of one of the three validators.\<close>

datatype field_error = OutOfRange string | FutureDate | InvalidPhone | EmptySkills

record CandidateBase =
  Full_Name :: string
  DOB :: date
  Contact_Number :: unicode
  Address :: string
  Qualification :: string
  Graduation_Year :: int
  Years_of_Experience :: real
  Skills :: "string list"

record CandidateOut = CandidateBase +
  id_field :: int
  resume_filename :: string
  resume_path :: string
  created_at :: nat

definition check_length :: "string \<Rightarrow> nat \<Rightarrow> nat \<Rightarrow> 'a list \<Rightarrow> field_error + 'a list" where
  "check_length field min_length max_length v =
     (if length v < min_length \<or> length v > max_length then Inl (OutOfRange field) else Inr v)"

definition check_int :: "string \<Rightarrow> int \<Rightarrow> int \<Rightarrow> int \<Rightarrow> field_error + int" where
  "check_int field ge le v = (if v < ge \<or> v > le then Inl (OutOfRange field) else Inr v)"

definition check_float :: "string \<Rightarrow> real \<Rightarrow> real \<Rightarrow> real \<Rightarrow> field_error + real" where
  "check_float field ge le v = (if v < ge \<or> v > le then Inl (OutOfRange field) else Inr v)"

definition validate_dob :: "date \<Rightarrow> date \<Rightarrow> field_error + date" where
  "validate_dob today v = (if date_gt v today then Inl FutureDate else Inr v)"

definition validate_contact_number :: "unicode \<Rightarrow> field_error + unicode" where
  "validate_contact_number v =
     (let digits = normalize_phone v
      in if length digits < 10 \<or> length digits > 15 then Inl InvalidPhone else Inr digits)"

definition validate_skills :: "string list \<Rightarrow> field_error + string list" where
  "validate_skills v =
     (let cleaned = map strip (filter (\<lambda>s. s \<noteq> [] \<and> strip s \<noteq> []) v)
      in if cleaned = [] then Inl EmptySkills else Inr cleaned)"

text \<open>The \<open>Skills\<close> field: the bound \<open>min_length=1\<close> is checked first, and the validator
  runs on a list that passed it.\<close>

definition check_skills :: "string list \<Rightarrow> field_error + string list" where
  "check_skills v = (if length v < 1 then Inl (OutOfRange ''Skills'') else validate_skills v)"

definition errors_of :: "field_error + 'a \<Rightarrow> field_error list" where
  "errors_of r = (case r of Inl e \<Rightarrow> [e] | Inr _ \<Rightarrow> [])"

text \<open>Constructing a \<open>CandidateBase\<close>: every field is checked, in the order of the class,
  and the errors of all of them are reported together.\<close>

definition CandidateBase_init ::
  "date \<Rightarrow> string \<Rightarrow> date \<Rightarrow> unicode \<Rightarrow> string \<Rightarrow> string \<Rightarrow> int \<Rightarrow> real \<Rightarrow> string list
   \<Rightarrow> field_error list + CandidateBase" where
  "CandidateBase_init today full_name dob contact_number address qualification
     graduation_year years_of_experience skills =
     (let r1 = check_length ''Full_Name'' 2 100 full_name;
          r2 = validate_dob today dob;
          r3 = validate_contact_number contact_number;
          r4 = check_length ''Address'' 5 300 address;
          r5 = check_length ''Qualification'' 2 120 qualification;
          r6 = check_int ''Graduation_Year'' 1950 2100 graduation_year;
          r7 = check_float ''Years_of_Experience'' 0 60 years_of_experience;
          r8 = check_skills skills;
          errors = errors_of r1 @ errors_of r2 @ errors_of r3 @ errors_of r4 @
                   errors_of r5 @ errors_of r6 @ errors_of r7 @ errors_of r8
      in if errors \<noteq> [] then Inl errors
         else Inr \<lparr>Full_Name = projr r1, DOB = projr r2, Contact_Number = projr r3,
                   Address = projr r4, Qualification = projr r5, Graduation_Year = projr r6,
                   Years_of_Experience = projr r7, Skills = projr r8\<rparr>)"

text \<open>Constructing a \<open>CandidateOut\<close> from the dump of a \<open>CandidateBase\<close>: the inherited
  fields are validated again.\<close>

definition CandidateOut_init ::
  "date \<Rightarrow> CandidateBase \<Rightarrow> int \<Rightarrow> string \<Rightarrow> string \<Rightarrow> nat \<Rightarrow> field_error list + CandidateOut" where
  "CandidateOut_init today base cid fname path created =
     (case CandidateBase_init today (Full_Name base) (DOB base) (Contact_Number base)
             (Address base) (Qualification base) (Graduation_Year base)
             (Years_of_Experience base) (Skills base) of
        Inl errors \<Rightarrow> Inl errors
      | Inr b \<Rightarrow>
          Inr \<lparr>Full_Name = Full_Name b, DOB = DOB b, Contact_Number = Contact_Number b,
               Address = Address b, Qualification = Qualification b,
               Graduation_Year = Graduation_Year b,
               Years_of_Experience = Years_of_Experience b, Skills = Skills b,
               id_field = cid, resume_filename = fname, resume_path = path,
               created_at = created\<rparr>)"

section \<open>The store, the filesystem and the four operations\<close>

record UploadFile =
  filename :: "string option"
  content :: bytes

record candidate_form =
  Full_Name_form :: string
  DOB_form :: string
  Contact_Number_form :: unicode
  Address_form :: string
  Qualification_form :: string
  Graduation_Year_form :: int
  Years_of_Experience_form :: real
  Skills_form :: string
  Resume_form :: UploadFile

text \<open>How the three input/output statements of a creation end: reading the upload,
  opening the target file, writing it. \<open>WriteFails k\<close>: the file was opened (created, or
  truncated) and \<open>k\<close> bytes reached it before the error.\<close>

datatype io_outcome = IoOk | ReadFails | OpenFails | WriteFails nat

text \<open>What a request reads from outside the program: the current date, the current time,
  the parser \<open>date.fromisoformat\<close> and the outcome of its input/output. The date is read
  once per request: the second reading, when the \<open>CandidateOut\<close> is constructed, is taken
  to give the same day.\<close>

record env =
  today :: date
  utcnow :: nat
  fromisoformat :: "string \<Rightarrow> date option"
  resume_io :: io_outcome

text \<open>The errors a request ends in: the \<open>HTTPException\<close>s with status 415, 422 (twice)
  and 404, and an exception that no handler catches.\<close>

datatype error =
    UnsupportedFileType string
  | InvalidDateFormat
  | ValidationFailed "field_error list"
  | NotFound
  | Uncaught

text \<open>The globals \<open>CANDIDATES\<close> (a dictionary, in insertion order) and \<open>NEXT_ID\<close>, and the
  files on disk.\<close>

record state =
  CANDIDATES :: "(int \<times> CandidateOut) list"
  NEXT_ID :: int
  files :: "string \<rightharpoonup> bytes"

definition path_exists :: "(string \<rightharpoonup> bytes) \<Rightarrow> string \<Rightarrow> bool" where
  "path_exists fs p = (fs p \<noteq> None)"

definition write_file ::
  "io_outcome \<Rightarrow> (string \<rightharpoonup> bytes) \<Rightarrow> string \<Rightarrow> bytes \<Rightarrow> bool \<times> (string \<rightharpoonup> bytes)" where
  "write_file io fs path data =
     (case io of
        IoOk \<Rightarrow> (True, fs(path \<mapsto> data))
      | ReadFails \<Rightarrow> (False, fs)
      | OpenFails \<Rightarrow> (False, fs)
      | WriteFails k \<Rightarrow> (False, fs(path \<mapsto> take k data)))"

definition upload_candidate ::
  "env \<Rightarrow> state \<Rightarrow> candidate_form \<Rightarrow> (error + CandidateOut) \<times> state" where
  "upload_candidate e s form =
     (let ext = lower (snd (splitext (case filename (Resume_form form) of
                                        None \<Rightarrow> [] | Some n \<Rightarrow> n)))
      in if ext \<notin> ALLOWED_EXTENSIONS
         then (Inl (UnsupportedFileType (if ext = [] then ''unknown'' else ext)), s)
         else (case fromisoformat e (DOB_form form) of
            None \<Rightarrow> (Inl InvalidDateFormat, s)
          | Some dob_date \<Rightarrow>
             (let skills_list = parse_skills (Skills_form form)
              in case CandidateBase_init (today e) (Full_Name_form form) dob_date
                        (Contact_Number_form form) (Address_form form)
                        (Qualification_form form) (Graduation_Year_form form)
                        (Years_of_Experience_form form) skills_list of
                   Inl errors \<Rightarrow> (Inl (ValidationFailed errors), s)
                 | Inr base \<Rightarrow>
                    (let candidate_id = NEXT_ID s;
                         s1 = s\<lparr>NEXT_ID := NEXT_ID s + 1\<rparr>;
                         original_name = (case filename (Resume_form form) of
                                            None \<Rightarrow> ''resume''
                                          | Some n \<Rightarrow> if n = [] then ''resume'' else n);
                         stored_path = get_unique_save_path (path_exists (files s1))
                                         candidate_id original_name
                     in case write_file (resume_io e) (files s1) stored_path
                               (content (Resume_form form)) of
                          (False, fs) \<Rightarrow> (Inl Uncaught, s1\<lparr>files := fs\<rparr>)
                        | (True, fs) \<Rightarrow>
                           (case CandidateOut_init (today e) base candidate_id
                                   (basename stored_path) stored_path (utcnow e) of
                              Inl errors \<Rightarrow> (Inl Uncaught, s1\<lparr>files := fs\<rparr>)
                            | Inr candidate \<Rightarrow>
                               (Inr candidate,
                                s1\<lparr>files := fs,
                                   CANDIDATES := AList.update candidate_id candidate
                                                   (CANDIDATES s1)\<rparr>))))))"

definition list_candidates ::
  "state \<Rightarrow> string option \<Rightarrow> real option \<Rightarrow> int option \<Rightarrow> CandidateOut list" where
  "list_candidates s skill Min_Experience Graduation_Year_q =
     (let results = map snd (CANDIDATES s);
          results = (case skill of
                       None \<Rightarrow> results
                     | Some sk \<Rightarrow>
                         if sk = [] then results
                         else (let k = lower (strip sk)
                               in filter (\<lambda>c. list_ex (\<lambda>x. lower x = k) (Skills c)) results));
          results = (case Min_Experience of
                       None \<Rightarrow> results
                     | Some m \<Rightarrow> filter (\<lambda>c. Years_of_Experience c \<ge> m) results);
          results = (case Graduation_Year_q of
                       None \<Rightarrow> results
                     | Some g \<Rightarrow> filter (\<lambda>c. Graduation_Year c = g) results)
      in rev (sort_key created_at (rev results)))"

definition get_candidate :: "state \<Rightarrow> int \<Rightarrow> error + CandidateOut" where
  "get_candidate s candidate_id =
     (case map_of (CANDIDATES s) candidate_id of
        None \<Rightarrow> Inl NotFound
      | Some candidate \<Rightarrow> Inr candidate)"

text \<open>\<open>delete_candidate\<close>; \<open>remove_ok\<close> says whether \<open>os.remove\<close> succeeds when it is
  called. Its exception is caught and dropped.\<close>

definition delete_candidate ::
  "bool \<Rightarrow> state \<Rightarrow> int \<Rightarrow> (error + string) \<times> state" where
  "delete_candidate remove_ok s candidate_id =
     (case map_of (CANDIDATES s) candidate_id of
        None \<Rightarrow> (Inl NotFound, s)
      | Some candidate \<Rightarrow>
          (let s1 = s\<lparr>CANDIDATES := AList.delete candidate_id (CANDIDATES s)\<rparr>;
               s2 = (if resume_path candidate \<noteq> [] \<and>
                        path_exists (files s1) (resume_path candidate) \<and> remove_ok
                     then s1\<lparr>files := (files s1)(resume_path candidate := None)\<rparr>
                     else s1)
           in (Inr ''deleted successfully'', s2)))"

text \<open>What holds of the store in every state the operations reach: the keys are distinct,
  each record is stored under its own id, and every id in use is below the counter.\<close>

definition store_ok :: "state \<Rightarrow> bool" where
  "store_ok s = (distinct (map fst (CANDIDATES s)) \<and>
                 list_all (\<lambda>(k, c). id_field c = k \<and> k < NEXT_ID s) (CANDIDATES s))"

definition init_state :: "(string \<rightharpoonup> bytes) \<Rightarrow> state" where
  "init_state fs = \<lparr>CANDIDATES = [], NEXT_ID = 1, files = fs\<rparr>"

section \<open>Names for the parts of a creation request\<close>

text \<open>
  The theorems below speak about the intermediate values of \<open>upload_candidate\<close>. Each of
  the next four definitions is one expression of its body, under a name: the lower-cased
  extension of the uploaded filename, the path the resume is stored at, the result of
  constructing the \<open>CandidateBase\<close>, and the \<open>CandidateOut\<close> built from it.
\<close>

definition upload_ext :: "candidate_form \<Rightarrow> string" where
  "upload_ext form = lower (snd (splitext (case filename (Resume_form form) of
                                        None \<Rightarrow> [] | Some n \<Rightarrow> n)))"

definition upload_path :: "state \<Rightarrow> candidate_form \<Rightarrow> string" where
  "upload_path s form = get_unique_save_path (path_exists (files s)) (NEXT_ID s)
      (case filename (Resume_form form) of None \<Rightarrow> ''resume''
       | Some n \<Rightarrow> if n = [] then ''resume'' else n)"

definition upload_base :: "env \<Rightarrow> candidate_form \<Rightarrow> date \<Rightarrow> field_error list + CandidateBase" where
  "upload_base e form dob = CandidateBase_init (today e) (Full_Name_form form) dob
                        (Contact_Number_form form) (Address_form form)
                        (Qualification_form form) (Graduation_Year_form form)
                        (Years_of_Experience_form form) (parse_skills (Skills_form form))"

definition out_of :: "CandidateBase \<Rightarrow> int \<Rightarrow> string \<Rightarrow> nat \<Rightarrow> CandidateOut" where
  "out_of b cid path created =
     \<lparr>Full_Name = Full_Name b, DOB = DOB b, Contact_Number = Contact_Number b,
               Address = Address b, Qualification = Qualification b,
               Graduation_Year = Graduation_Year b,
               Years_of_Experience = Years_of_Experience b, Skills = Skills b,
               id_field = cid, resume_filename = basename path, resume_path = path,
               created_at = created\<rparr>"

section \<open>A concrete request\<close>

text \<open>
  One well-formed request, used wherever a theorem is run on a concrete input: the
  environment reads the date 2024-06-15 as today and parses the one date string the form
  carries; the form is valid in every field; the name of the uploaded file and the outcome
  of the input/output are left open.
\<close>

definition date_1990 :: date where
  "date_1990 = \<lparr>year = 1990, month = 1, day = 1\<rparr>"

definition env0 :: "io_outcome \<Rightarrow> env" where
  "env0 io = \<lparr>today = \<lparr>year = 2024, month = 6, day = 15\<rparr>, utcnow = 1000,
     fromisoformat = (\<lambda>s. if s = ''1990-01-01'' then Some date_1990 else None),
     resume_io = io\<rparr>"

definition form0 :: "string \<Rightarrow> candidate_form" where
  "form0 name = \<lparr>Full_Name_form = ''Ada Lovelace'', DOB_form = ''1990-01-01'',
     Contact_Number_form = codepoints ''+1 (555) 010-9999'', Address_form = ''12 Main Street'',
     Qualification_form = ''BSc'', Graduation_Year_form = 2012,
     Years_of_Experience_form = 5, Skills_form = ''Python, python, SQL'',
     Resume_form = \<lparr>filename = Some name, content = ''%PDF-1.4''\<rparr>\<rparr>"


definition date_2999 :: date where
  "date_2999 = \<lparr>year = 2999, month = 1, day = 1\<rparr>"

definition base0 :: CandidateBase where
  "base0 = \<lparr>Full_Name = ''Ada Lovelace'', DOB = date_1990,
     Contact_Number = codepoints ''15550109999'', Address = ''12 Main Street'',
     Qualification = ''BSc'', Graduation_Year = 2012, Years_of_Experience = 5,
     Skills = [''Python'', ''SQL'']\<rparr>"

text \<open>The record and the state after the request has been stored once, with the file
  name \<open>cv.pdf\<close>, in the empty initial state, and after it has been stored a second time.\<close>

definition cand1 :: CandidateOut where
  "cand1 = out_of base0 1 ''uploads/cv.pdf'' 1000"

definition state1 :: state where
  "state1 = \<lparr>CANDIDATES = [(1, cand1)], NEXT_ID = 2,
              files = [''uploads/cv.pdf'' \<mapsto> ''%PDF-1.4'']\<rparr>"

definition cand2 :: CandidateOut where
  "cand2 = out_of base0 2 ''uploads/cv_(2).pdf'' 1000"

definition state2 :: state where
  "state2 = \<lparr>CANDIDATES = [(1, cand1), (2, cand2)], NEXT_ID = 3,
              files = [''uploads/cv.pdf'' \<mapsto> ''%PDF-1.4'',
                       ''uploads/cv_(2).pdf'' \<mapsto> ''%PDF-1.4'']\<rparr>"

section \<open>Facts about the string functions\<close>

lemma set_re_sub_runs:
  "set (re_sub_runs P repl s) \<subseteq> set repl \<union> {c \<in> set s. \<not> P c}"
proof (induction P repl s rule: re_sub_runs.induct)
  case (1 P repl)
  show ?case by simp
next
  case (2 P repl c cs)
  have "set (dropWhile P cs) \<subseteq> set cs" by (rule set_dropWhileD [THEN subsetI])
  with 2 show ?case by (auto split: if_splits)
qed

lemma re_sub_runs_id: "\<forall>c \<in> set s. \<not> P c \<Longrightarrow> re_sub_runs P repl s = s"
  by (induction s) auto

lemma set_strip_chars: "set (strip_chars P s) \<subseteq> set s"
proof
  fix x assume "x \<in> set (strip_chars P s)"
  then have "x \<in> set (dropWhile P (rev (dropWhile P s)))" by (simp add: strip_chars_def)
  then have "x \<in> set (rev (dropWhile P s))" by (rule set_dropWhileD)
  then have "x \<in> set (dropWhile P s)" by simp
  then show "x \<in> set s" by (rule set_dropWhileD)
qed

lemma hd_strip_chars: "strip_chars P s \<noteq> [] \<Longrightarrow> \<not> P (hd (strip_chars P s))"
proof -
  assume ne: "strip_chars P s \<noteq> []"
  let ?d = "dropWhile P s"
  have dne: "?d \<noteq> []"
  proof
    assume "?d = []"
    then have "strip_chars P s = []" by (simp only: strip_chars_def rev.simps dropWhile.simps)
    with ne show False by simp
  qed
  then have h: "\<not> P (hd ?d)" by (rule hd_dropWhile)
  from ne have rne: "dropWhile P (rev ?d) \<noteq> []" by (simp add: strip_chars_def)
  have "hd (strip_chars P s) = last (dropWhile P (rev ?d))"
    using rne by (simp add: strip_chars_def hd_rev)
  also have "\<dots> = last (rev ?d)"
    using rne by (metis last_appendR takeWhile_dropWhile_id)
  also have "\<dots> = hd ?d" using dne by (simp add: last_rev)
  finally show ?thesis using h by simp
qed

lemma last_strip_chars: "strip_chars P s \<noteq> [] \<Longrightarrow> \<not> P (last (strip_chars P s))"
proof -
  assume ne: "strip_chars P s \<noteq> []"
  then have rne: "dropWhile P (rev (dropWhile P s)) \<noteq> []" by (simp add: strip_chars_def)
  then have "\<not> P (hd (dropWhile P (rev (dropWhile P s))))" by (rule hd_dropWhile)
  then show ?thesis using rne by (simp add: strip_chars_def last_rev)
qed

lemma strip_chars_id:
  "s = [] \<or> (\<not> P (hd s) \<and> \<not> P (last s)) \<Longrightarrow> strip_chars P s = s"
proof (cases s)
  case Nil
  then show ?thesis by (simp add: strip_chars_def)
next
  case (Cons a as)
  assume "s = [] \<or> (\<not> P (hd s) \<and> \<not> P (last s))"
  with Cons have a: "\<not> P a" and l: "\<not> P (last s)" by auto
  from a Cons have d: "dropWhile P s = s" by simp
  from Cons have "s \<noteq> []" by simp
  then have "hd (rev s) = last s" by (simp add: hd_rev)
  with l have "rev s = [] \<or> \<not> P (hd (rev s))" by simp
  then have "dropWhile P (rev s) = rev s" by (simp only: dropWhile_eq_self_iff)
  with d show ?thesis by (simp add: strip_chars_def)
qed

lemma strip_chars_all: "\<forall>c \<in> set s. P c \<Longrightarrow> strip_chars P s = []"
proof -
  assume "\<forall>c \<in> set s. P c"
  then have "dropWhile P s = []" by (induction s) auto
  then show ?thesis unfolding strip_chars_def by (simp only: rev.simps dropWhile.simps)
qed

lemma safe_resume: "\<forall>c \<in> set ''resume''. safe_class c"
  by (simp add: safe_class_def in_range_def)

lemma safe_filename_props:
  "(\<forall>c \<in> set (safe_filename s). safe_class c) \<and> safe_filename s \<noteq> [] \<and>
   hd (safe_filename s) \<noteq> CHR ''_'' \<and> last (safe_filename s) \<noteq> CHR ''_''"
proof -
  let ?t = "strip_chars (\<lambda>c. c = CHR ''_'') (re_sub_runs (\<lambda>c. \<not> safe_class c) ''_'' s)"
  have u: "safe_class CHR ''_''" by (simp add: safe_class_def)
  have "set ?t \<subseteq> set ''_'' \<union> {c \<in> set s. \<not> \<not> safe_class c}"
    using set_strip_chars set_re_sub_runs by (rule subset_trans)
  then have safe_t: "\<forall>c \<in> set ?t. safe_class c" using u by auto
  show ?thesis
  proof (cases "?t = []")
    case True
    then have "safe_filename s = ''resume''" by (simp add: safe_filename_def)
    then show ?thesis using safe_resume by simp
  next
    case False
    then have eq: "safe_filename s = ?t" by (simp add: safe_filename_def Let_def)
    from False have "hd ?t \<noteq> CHR ''_''" by (rule hd_strip_chars)
    moreover from False have "last ?t \<noteq> CHR ''_''" by (rule last_strip_chars)
    ultimately show ?thesis using eq False safe_t by simp
  qed
qed

section \<open>Facts about the normalizer, the validators and a creation request\<close>

lemma normalize_phone_filter: "normalize_phone s = filter re_digit s"
  by (induction s) (simp_all add: normalize_phone_def re_sub_each_def)





lemma safe_class_enum:
  "safe_class c =
     (c \<in> set ''abcdefghijklmnopqrstuvwxyzABCDEFGHIJKLMNOPQRSTUVWXYZ0123456789._-'')"
proof -
  define n where "n = (of_char c :: nat)"
  have r1: "(48 \<le> n \<and> n \<le> 57) = (n = 48 \<or> n = 49 \<or> n = 50 \<or> n = 51 \<or> n = 52 \<or> n = 53 \<or> n = 54 \<or> n = 55 \<or> n = 56 \<or> n = 57)" by presburger
  have r2: "(97 \<le> n \<and> n \<le> 122) = (n = 97 \<or> n = 98 \<or> n = 99 \<or> n = 100 \<or> n = 101 \<or> n = 102 \<or> n = 103 \<or> n = 104 \<or> n = 105 \<or> n = 106 \<or> n = 107 \<or> n = 108 \<or> n = 109 \<or> n = 110 \<or> n = 111 \<or> n = 112 \<or> n = 113 \<or> n = 114 \<or> n = 115 \<or> n = 116 \<or> n = 117 \<or> n = 118 \<or> n = 119 \<or> n = 120 \<or> n = 121 \<or> n = 122)" by presburger
  have r3: "(65 \<le> n \<and> n \<le> 90) = (n = 65 \<or> n = 66 \<or> n = 67 \<or> n = 68 \<or> n = 69 \<or> n = 70 \<or> n = 71 \<or> n = 72 \<or> n = 73 \<or> n = 74 \<or> n = 75 \<or> n = 76 \<or> n = 77 \<or> n = 78 \<or> n = 79 \<or> n = 80 \<or> n = 81 \<or> n = 82 \<or> n = 83 \<or> n = 84 \<or> n = 85 \<or> n = 86 \<or> n = 87 \<or> n = 88 \<or> n = 89 \<or> n = 90)" by presburger
  have e: "\<And>d. (c = d) = (n = (of_char d :: nat))"
    unfolding n_def by simp
  show ?thesis
    unfolding safe_class_def in_range_def n_def [symmetric]
    by (simp add: e r1 r2 r3 disj_ac)
qed

lemma strip_idem: "strip (strip s) = strip s"
  unfolding strip_def
  by (rule strip_chars_id) (use hd_strip_chars last_strip_chars in blast)

lemma split_on_nonempty: "split_on sep s \<noteq> []"
  by (induction s) (auto split: list.splits)

lemma split_on_no_sep: "p \<in> set (split_on sep s) \<Longrightarrow> sep \<notin> set p"
  by (induction s arbitrary: p) (auto split: list.splits if_splits)

lemma split_on_join: "concat (map (\<lambda>p. p @ [sep]) (split_on sep s)) = s @ [sep]"
  by (induction s) (auto split: list.splits simp: split_on_nonempty)

lemma unique_loop_acc: "unique_loop xs seen (u @ v) = u @ unique_loop xs seen v"
  by (induction xs arbitrary: seen v) (simp_all add: Let_def)

lemma unique_loop_Cons:
  "unique_loop (x # xs) seen [] =
     (if lower x \<notin> seen then x # unique_loop xs (insert (lower x) seen) []
      else unique_loop xs seen [])"
  using unique_loop_acc [of xs "insert (lower x) seen" "[x]" "[]"] by (simp add: Let_def)

lemma unique_loop_subseq: "subseq (unique_loop xs seen []) xs"
  by (induction xs arbitrary: seen)
     (auto simp: unique_loop_Cons simp del: unique_loop.simps(2) intro: list_emb_Cons)

lemma unique_loop_keys:
  "lower ` set (unique_loop xs seen []) = lower ` set xs - seen"
  by (induction xs arbitrary: seen) (auto simp: unique_loop_Cons simp del: unique_loop.simps(2))

lemma unique_loop_distinct: "distinct (map lower (unique_loop xs seen []))"
proof (induction xs arbitrary: seen)
  case Nil
  show ?case by simp
next
  case (Cons x xs)
  have "lower x \<notin> lower ` set (unique_loop xs (insert (lower x) seen) [])"
    by (simp add: unique_loop_keys)
  with Cons show ?case by (simp add: unique_loop_Cons del: unique_loop.simps(2))
qed

lemma unique_loop_first:
  "x \<in> set (unique_loop xs seen []) \<Longrightarrow> find (\<lambda>p. lower p = lower x) xs = Some x"
proof (induction xs arbitrary: seen)
  case Nil
  then show ?case by simp
next
  case (Cons y ys)
  show ?case
  proof (cases "lower y \<in> seen")
    case True
    with Cons.prems have x: "x \<in> set (unique_loop ys seen [])"
      by (simp add: unique_loop_Cons del: unique_loop.simps(2))
    then have "lower x \<in> lower ` set ys - seen" using unique_loop_keys by blast
    with True have "lower y \<noteq> lower x" by auto
    with Cons.IH [OF x] show ?thesis by simp
  next
    case False
    with Cons.prems have "x = y \<or> x \<in> set (unique_loop ys (insert (lower y) seen) [])"
      by (simp add: unique_loop_Cons del: unique_loop.simps(2))
    then show ?thesis
    proof
      assume "x = y"
      then show ?thesis by simp
    next
      assume x: "x \<in> set (unique_loop ys (insert (lower y) seen) [])"
      then have "lower x \<in> lower ` set ys - insert (lower y) seen"
        using unique_loop_keys by blast
      then have "lower y \<noteq> lower x" by auto
      with Cons.IH [OF x] show ?thesis by simp
    qed
  qed
qed

lemma strip_not_blank: "strip y \<noteq> [] \<Longrightarrow> \<not> isspace (hd (strip y)) \<and> \<not> isspace (last (strip y))"
  unfolding strip_def using hd_strip_chars last_strip_chars by blast

lemma parse_skills_example: "parse_skills ''Python, python, SQL'' = [''Python'', ''SQL'']"
  by code_simp

lemma normalize_phone_idem: "normalize_phone (normalize_phone s) = normalize_phone s"
  by (simp add: normalize_phone_filter)

lemma clean_skills_idem:
  assumes "cl = map strip (filter (\<lambda>s. s \<noteq> [] \<and> strip s \<noteq> []) sk)"
  shows "map strip (filter (\<lambda>s. s \<noteq> [] \<and> strip s \<noteq> []) cl) = cl"
proof -
  have each: "\<forall>x \<in> set cl. x \<noteq> [] \<and> strip x = x"
    unfolding assms by (auto simp: strip_idem)
  then have "filter (\<lambda>s. s \<noteq> [] \<and> strip s \<noteq> []) cl = cl" by (simp add: filter_id_conv)
  moreover from each have "map strip cl = cl" by (simp add: map_idI)
  ultimately show ?thesis by simp
qed

lemma errors_of_Nil: "(errors_of r = []) = (\<not> isl r)"
  by (cases r) (simp_all add: errors_of_def)

lemma CandidateBase_init_Inr_iff:
  "(CandidateBase_init td fn dob cn ad q gy ye sk = Inr b) =
   (2 \<le> length fn \<and> length fn \<le> 100 \<and> \<not> date_gt dob td \<and>
    10 \<le> length (normalize_phone cn) \<and> length (normalize_phone cn) \<le> 15 \<and>
    5 \<le> length ad \<and> length ad \<le> 300 \<and> 2 \<le> length q \<and> length q \<le> 120 \<and>
    1950 \<le> gy \<and> gy \<le> 2100 \<and> 0 \<le> ye \<and> ye \<le> 60 \<and> sk \<noteq> [] \<and>
    map strip (filter (\<lambda>s. s \<noteq> [] \<and> strip s \<noteq> []) sk) \<noteq> [] \<and>
    b = \<lparr>Full_Name = fn, DOB = dob, Contact_Number = normalize_phone cn, Address = ad,
         Qualification = q, Graduation_Year = gy, Years_of_Experience = ye,
         Skills = map strip (filter (\<lambda>s. s \<noteq> [] \<and> strip s \<noteq> []) sk)\<rparr>)"
  unfolding CandidateBase_init_def Let_def errors_of_Nil append_is_Nil_conv
  by (auto simp: check_length_def check_int_def check_float_def validate_dob_def
        validate_contact_number_def check_skills_def validate_skills_def Let_def)

lemma CandidateBase_init_again:
  assumes "CandidateBase_init td fn dob cn ad q gy ye sk = Inr b"
  shows "CandidateBase_init td (Full_Name b) (DOB b) (Contact_Number b) (Address b)
           (Qualification b) (Graduation_Year b) (Years_of_Experience b) (Skills b) = Inr b"
proof -
  let ?cl = "map strip (filter (\<lambda>s. s \<noteq> [] \<and> strip s \<noteq> []) sk)"
  have cl: "map strip (filter (\<lambda>s. s \<noteq> [] \<and> strip s \<noteq> []) ?cl) = ?cl"
    by (rule clean_skills_idem) simp
  from assms show ?thesis
    unfolding CandidateBase_init_Inr_iff
    by (simp add: normalize_phone_idem cl)
qed

lemma upload_bad_type:
  "upload_ext form \<notin> ALLOWED_EXTENSIONS \<Longrightarrow>
   upload_candidate e s form =
     (Inl (UnsupportedFileType (if upload_ext form = [] then ''unknown'' else upload_ext form)), s)"
  by (simp add: upload_candidate_def upload_ext_def Let_def)

lemma upload_bad_date:
  "upload_ext form \<in> ALLOWED_EXTENSIONS \<Longrightarrow> fromisoformat e (DOB_form form) = None \<Longrightarrow>
   upload_candidate e s form = (Inl InvalidDateFormat, s)"
  by (simp add: upload_candidate_def upload_ext_def Let_def)

lemma upload_invalid:
  "upload_ext form \<in> ALLOWED_EXTENSIONS \<Longrightarrow> fromisoformat e (DOB_form form) = Some dob \<Longrightarrow>
   upload_base e form dob = Inl errs \<Longrightarrow>
   upload_candidate e s form = (Inl (ValidationFailed errs), s)"
  by (simp add: upload_candidate_def upload_ext_def upload_base_def Let_def)

lemma CandidateOut_init_ok:
  "CandidateBase_init td fn dob cn ad q gy ye sk = Inr b \<Longrightarrow>
   CandidateOut_init td b cid (basename path) path created = Inr (out_of b cid path created)"
  by (simp add: CandidateOut_init_def CandidateBase_init_again out_of_def)

lemma upload_valid:
  assumes "upload_ext form \<in> ALLOWED_EXTENSIONS"
    and "fromisoformat e (DOB_form form) = Some dob"
    and "upload_base e form dob = Inr b"
  shows "upload_candidate e s form =
     (case write_file (resume_io e) (files s) (upload_path s form) (content (Resume_form form)) of
        (False, fs) \<Rightarrow> (Inl Uncaught, s\<lparr>NEXT_ID := NEXT_ID s + 1, files := fs\<rparr>)
      | (True, fs) \<Rightarrow>
          (Inr (out_of b (NEXT_ID s) (upload_path s form) (utcnow e)),
           s\<lparr>NEXT_ID := NEXT_ID s + 1, files := fs,
             CANDIDATES := AList.update (NEXT_ID s)
                (out_of b (NEXT_ID s) (upload_path s form) (utcnow e)) (CANDIDATES s)\<rparr>))"
proof -
  from assms(3) have ok: "\<And>cid path created.
      CandidateOut_init (today e) b cid (basename path) path created = Inr (out_of b cid path created)"
    unfolding upload_base_def by (rule CandidateOut_init_ok)
  from assms show ?thesis
    unfolding upload_candidate_def
    by (simp add: upload_ext_def [symmetric] upload_base_def [symmetric] upload_path_def [symmetric]
          Let_def ok split: prod.splits bool.splits)
qed

lemma write_file_ok: "(fst (write_file io fs path data)) = (io = IoOk)"
  by (cases io) (simp_all add: write_file_def)

lemma write_file_IoOk: "write_file IoOk fs path data = (True, fs(path \<mapsto> data))"
  by (simp add: write_file_def)

lemma write_file_other: "p \<noteq> path \<Longrightarrow> snd (write_file io fs path data) p = fs p"
  by (cases io) (simp_all add: write_file_def)

lemma upload_cases:
  obtains
    (bad_type) "upload_ext form \<notin> ALLOWED_EXTENSIONS"
      "upload_candidate e s form =
         (Inl (UnsupportedFileType (if upload_ext form = [] then ''unknown''
                                    else upload_ext form)), s)"
  | (bad_date) "upload_ext form \<in> ALLOWED_EXTENSIONS"
      "fromisoformat e (DOB_form form) = None"
      "upload_candidate e s form = (Inl InvalidDateFormat, s)"
  | (invalid) dob errs where "upload_ext form \<in> ALLOWED_EXTENSIONS"
      "fromisoformat e (DOB_form form) = Some dob" "upload_base e form dob = Inl errs"
      "upload_candidate e s form = (Inl (ValidationFailed errs), s)"
  | (io_failed) dob b where "upload_ext form \<in> ALLOWED_EXTENSIONS"
      "fromisoformat e (DOB_form form) = Some dob" "upload_base e form dob = Inr b"
      "resume_io e \<noteq> IoOk"
      "upload_candidate e s form =
         (Inl Uncaught,
          s\<lparr>NEXT_ID := NEXT_ID s + 1,
            files := snd (write_file (resume_io e) (files s) (upload_path s form)
                            (content (Resume_form form)))\<rparr>)"
  | (stored) dob b where "upload_ext form \<in> ALLOWED_EXTENSIONS"
      "fromisoformat e (DOB_form form) = Some dob" "upload_base e form dob = Inr b"
      "resume_io e = IoOk"
      "upload_candidate e s form =
         (Inr (out_of b (NEXT_ID s) (upload_path s form) (utcnow e)),
          s\<lparr>NEXT_ID := NEXT_ID s + 1,
            files := (files s)(upload_path s form \<mapsto> content (Resume_form form)),
            CANDIDATES := AList.update (NEXT_ID s)
               (out_of b (NEXT_ID s) (upload_path s form) (utcnow e)) (CANDIDATES s)\<rparr>)"
proof (cases "upload_ext form \<in> ALLOWED_EXTENSIONS")
  case False
  then show ?thesis using bad_type upload_bad_type by blast
next
  case ext: True
  show ?thesis
  proof (cases "fromisoformat e (DOB_form form)")
    case None
    with ext show ?thesis using bad_date upload_bad_date by blast
  next
    case (Some dob)
    show ?thesis
    proof (cases "upload_base e form dob")
      case (Inl errs)
      with ext Some show ?thesis using invalid upload_invalid by blast
    next
      case (Inr b)
      note v = upload_valid [OF ext Some Inr, of s]
      show ?thesis
      proof (cases "resume_io e = IoOk")
        case True
        with v have "upload_candidate e s form =
         (Inr (out_of b (NEXT_ID s) (upload_path s form) (utcnow e)),
          s\<lparr>NEXT_ID := NEXT_ID s + 1,
            files := (files s)(upload_path s form \<mapsto> content (Resume_form form)),
            CANDIDATES := AList.update (NEXT_ID s)
               (out_of b (NEXT_ID s) (upload_path s form) (utcnow e)) (CANDIDATES s)\<rparr>)"
          by (simp add: write_file_IoOk)
        with ext Some Inr True show ?thesis by (rule stored)
      next
        case False
        then have "\<not> fst (write_file (resume_io e) (files s) (upload_path s form)
                            (content (Resume_form form)))"
          by (simp add: write_file_ok)
        with v have "upload_candidate e s form =
         (Inl Uncaught,
          s\<lparr>NEXT_ID := NEXT_ID s + 1,
            files := snd (write_file (resume_io e) (files s) (upload_path s form)
                            (content (Resume_form form)))\<rparr>)"
          by (simp split: prod.splits bool.splits)
        with ext Some Inr False show ?thesis by (rule io_failed)
      qed
    qed
  qed
qed

section \<open>Facts about the reported errors and a stored request\<close>

lemma validate_contact_number_cases:
  "validate_contact_number v =
     (if length (normalize_phone v) < 10 \<or> 15 < length (normalize_phone v)
      then Inl InvalidPhone else Inr (normalize_phone v))"
  by (simp add: validate_contact_number_def Let_def)

lemma errors_check_length: "InvalidPhone \<notin> set (errors_of (check_length f lo hi v)) \<and>
   FutureDate \<notin> set (errors_of (check_length f lo hi v))"
  by (simp add: check_length_def errors_of_def)

lemma errors_check_int: "InvalidPhone \<notin> set (errors_of (check_int f lo hi v)) \<and>
   FutureDate \<notin> set (errors_of (check_int f lo hi v))"
  by (simp add: check_int_def errors_of_def)

lemma errors_check_float: "InvalidPhone \<notin> set (errors_of (check_float f lo hi v)) \<and>
   FutureDate \<notin> set (errors_of (check_float f lo hi v))"
  by (simp add: check_float_def errors_of_def)

lemma errors_check_skills: "InvalidPhone \<notin> set (errors_of (check_skills v)) \<and>
   FutureDate \<notin> set (errors_of (check_skills v))"
  by (simp add: check_skills_def validate_skills_def errors_of_def Let_def)

lemma errors_validate_dob: "InvalidPhone \<notin> set (errors_of (validate_dob td v))
   \<and> (FutureDate \<in> set (errors_of (validate_dob td v))) = date_gt v td"
  by (simp add: validate_dob_def errors_of_def)

lemma errors_validate_contact: "FutureDate \<notin> set (errors_of (validate_contact_number v))
   \<and> (InvalidPhone \<in> set (errors_of (validate_contact_number v))) =
       (length (normalize_phone v) < 10 \<or> 15 < length (normalize_phone v))"
  by (simp add: validate_contact_number_cases errors_of_def)

lemma CandidateBase_init_errors:
  "(\<exists>errs. CandidateBase_init td fn dob cn ad q gy ye sk = Inl errs \<and> x \<in> set errs) =
   (x \<in> set (errors_of (check_length ''Full_Name'' 2 100 fn)) \<or>
    x \<in> set (errors_of (validate_dob td dob)) \<or>
    x \<in> set (errors_of (validate_contact_number cn)) \<or>
    x \<in> set (errors_of (check_length ''Address'' 5 300 ad)) \<or>
    x \<in> set (errors_of (check_length ''Qualification'' 2 120 q)) \<or>
    x \<in> set (errors_of (check_int ''Graduation_Year'' 1950 2100 gy)) \<or>
    x \<in> set (errors_of (check_float ''Years_of_Experience'' 0 60 ye)) \<or>
    x \<in> set (errors_of (check_skills sk)))"
proof -
  let ?errs = "errors_of (check_length ''Full_Name'' 2 100 fn) @ errors_of (validate_dob td dob) @
    errors_of (validate_contact_number cn) @ errors_of (check_length ''Address'' 5 300 ad) @
    errors_of (check_length ''Qualification'' 2 120 q) @
    errors_of (check_int ''Graduation_Year'' 1950 2100 gy) @
    errors_of (check_float ''Years_of_Experience'' 0 60 ye) @ errors_of (check_skills sk)"
  have "CandidateBase_init td fn dob cn ad q gy ye sk = Inl ?errs \<or>
        (?errs = [] \<and> (\<exists>b. CandidateBase_init td fn dob cn ad q gy ye sk = Inr b))"
    by (simp add: CandidateBase_init_def Let_def)
  then show ?thesis
  proof
    assume "CandidateBase_init td fn dob cn ad q gy ye sk = Inl ?errs"
    then show ?thesis by simp
  next
    assume a: "?errs = [] \<and> (\<exists>b. CandidateBase_init td fn dob cn ad q gy ye sk = Inr b)"
    then have "\<not> (\<exists>errs. CandidateBase_init td fn dob cn ad q gy ye sk = Inl errs \<and> x \<in> set errs)"
      by auto
    moreover from a have "x \<notin> set ?errs" by simp
    ultimately show ?thesis by simp
  qed
qed


lemma CandidateBase_init_future:
  "(\<exists>errs. CandidateBase_init td fn dob cn ad q gy ye sk = Inl errs \<and> FutureDate \<in> set errs) =
   date_gt dob td"
  unfolding CandidateBase_init_errors
  by (simp add: errors_check_length errors_check_int errors_check_float errors_check_skills
        errors_validate_dob errors_validate_contact)

lemma upload_stored_D:
  assumes "upload_candidate e s form = (Inr c, s')"
  obtains dob b where "upload_ext form \<in> ALLOWED_EXTENSIONS"
      "fromisoformat e (DOB_form form) = Some dob" "upload_base e form dob = Inr b"
      "resume_io e = IoOk"
      "c = out_of b (NEXT_ID s) (upload_path s form) (utcnow e)"
      "s' = s\<lparr>NEXT_ID := NEXT_ID s + 1,
            files := (files s)(upload_path s form \<mapsto> content (Resume_form form)),
            CANDIDATES := AList.update (NEXT_ID s) c (CANDIDATES s)\<rparr>"
  using assms by (cases rule: upload_cases [where form = form and e = e and s = s]) auto

lemma form0_ext: "upload_ext (form0 ''cv.pdf'') \<in> ALLOWED_EXTENSIONS"
  by code_simp

lemma form0_dob: "fromisoformat (env0 io) (DOB_form (form0 name)) = Some date_1990"
  by (simp add: env0_def form0_def)

lemma form0_base: "upload_base (env0 io) (form0 name) date_1990 = Inr base0"
proof -
  have "upload_base (env0 io) (form0 name) date_1990 =
        upload_base (env0 IoOk) (form0 []) date_1990"
    by (simp add: upload_base_def env0_def form0_def)
  also have "\<dots> = Inr base0" by code_simp
  finally show ?thesis .
qed

lemma form0_path1: "upload_path (init_state Map.empty) (form0 ''cv.pdf'') = ''uploads/cv.pdf''"
  by code_simp

lemma form0_path2: "upload_path state1 (form0 ''cv.pdf'') = ''uploads/cv_(2).pdf''"
  by code_simp

lemma upload_first:
  "upload_candidate (env0 IoOk) (init_state Map.empty) (form0 ''cv.pdf'') = (Inr cand1, state1)"
  unfolding upload_valid [OF form0_ext form0_dob form0_base] form0_path1
  by (simp add: env0_def form0_def write_file_def init_state_def cand1_def state1_def)

section \<open>Facts about paths, deletion and the store invariant\<close>

lemma upload_second:
  "upload_candidate (env0 IoOk) state1 (form0 ''cv.pdf'') = (Inr cand2, state2)"
  unfolding upload_valid [OF form0_ext form0_dob form0_base] form0_path2
  by (simp add: env0_def form0_def write_file_def state1_def cand2_def state2_def)

lemma splitext_append: "fst (splitext p) @ snd (splitext p) = p"
  by (simp add: splitext_def Let_def)

lemma path_join_uploads:
  "b \<noteq> [] \<Longrightarrow> hd b \<noteq> CHR ''/'' \<Longrightarrow> path_join UPLOAD_DIR b = ''uploads/'' @ b"
  by (simp add: path_join_def UPLOAD_DIR_def)

lemma safe_filename_hd: "hd (safe_filename name) \<noteq> CHR ''/''"
proof -
  from safe_filename_props [of name]
  have "safe_class (hd (safe_filename name))" by (simp add: hd_in_set)
  moreover have "\<not> safe_class CHR ''/''" by (simp add: safe_class_def in_range_def)
  ultimately show ?thesis by auto
qed

lemma get_unique_save_path_eq:
  "get_unique_save_path ex cid name =
     (if \<not> ex (''uploads/'' @ safe_filename name) then ''uploads/'' @ safe_filename name
      else ''uploads/'' @ fst (splitext (safe_filename name)) @ ''_('' @ str_int cid @ '')'' @
           snd (splitext (safe_filename name)))"
proof -
  let ?safe = "safe_filename name"
  let ?base = "fst (splitext ?safe)"
  let ?ext = "snd (splitext ?safe)"
  let ?new = "?base @ ''_('' @ str_int cid @ '')'' @ ?ext"
  have ne: "?safe \<noteq> []" using safe_filename_props [of name] by simp
  have 1: "path_join UPLOAD_DIR ?safe = ''uploads/'' @ ?safe"
    using ne safe_filename_hd by (rule path_join_uploads)
  have "hd ?new \<noteq> CHR ''/''"
  proof (cases "?base = []")
    case True
    then show ?thesis by simp
  next
    case False
    with splitext_append [of ?safe] have "hd ?safe = hd ?base"
      by (metis hd_append2)
    with False safe_filename_hd [of name] show ?thesis by simp
  qed
  moreover have "?new \<noteq> []" by simp
  ultimately have 2: "path_join UPLOAD_DIR ?new = ''uploads/'' @ ?new"
    by (simp add: path_join_uploads)
  show ?thesis
    unfolding get_unique_save_path_def Let_def
    by (simp only: 1 2 case_prod_beta)
qed

lemma cv_safe: "safe_filename ''cv.pdf'' = ''cv.pdf''" by code_simp

lemma cv_splitext: "splitext ''cv.pdf'' = (''cv'', ''.pdf'')" by code_simp

lemma cv_path:
  "filename (Resume_form form) = Some ''cv.pdf'' \<Longrightarrow>
   upload_path s form =
     (if files s ''uploads/cv.pdf'' = None then ''uploads/cv.pdf''
      else ''uploads/cv_('' @ str_int (NEXT_ID s) @ '').pdf'')"
  by (simp add: upload_path_def get_unique_save_path_eq cv_safe cv_splitext path_exists_def)

lemma set_list_candidates:
  "set (list_candidates s sk me gy) \<subseteq> snd ` set (CANDIDATES s)"
  by (auto simp: list_candidates_def Let_def split: option.splits if_splits)

lemma store_ok_delete_ids:
  assumes "store_ok s" and "c \<in> snd ` set (AList.delete cid (CANDIDATES s))"
  shows "id_field c \<noteq> cid"
proof -
  from assms(2) obtain k where k: "(k, c) \<in> set (CANDIDATES s)" and ne: "k \<noteq> cid"
    by (auto simp: AList.delete_eq)
  from assms(1) k have "id_field c = k" by (auto simp: store_ok_def list_all_iff)
  with ne show ?thesis by simp
qed

lemma filter_delete_other:
  "filter (\<lambda>p. fst p \<noteq> cid) (AList.delete cid al) = filter (\<lambda>p. fst p \<noteq> cid) al"
  by (induction al) auto

lemma delete_found:
  "map_of (CANDIDATES s) cid = Some c \<Longrightarrow>
   delete_candidate rm s cid =
     (Inr ''deleted successfully'',
      s\<lparr>CANDIDATES := AList.delete cid (CANDIDATES s),
        files := (if resume_path c \<noteq> [] \<and> files s (resume_path c) \<noteq> None \<and> rm
                  then (files s)(resume_path c := None) else files s)\<rparr>)"
  by (simp add: delete_candidate_def Let_def path_exists_def)

lemma delete_missing:
  "map_of (CANDIDATES s) cid = None \<Longrightarrow> delete_candidate rm s cid = (Inl NotFound, s)"
  by (simp add: delete_candidate_def)

text \<open>
  The store invariant holds in the initial state and is kept by a creation request,
  whatever its outcome, and by a deletion.
\<close>

lemma update_fresh: "k \<notin> fst ` set al \<Longrightarrow> AList.update k v al = al @ [(k, v)]"
  by (induction al) auto

lemma store_ok_fresh: "store_ok s \<Longrightarrow> NEXT_ID s \<notin> fst ` set (CANDIDATES s)"
  by (auto simp: store_ok_def list_all_iff)

lemma store_ok_init: "store_ok (init_state fs)"
  by (simp add: store_ok_def init_state_def)

lemma store_ok_upload: "store_ok s \<Longrightarrow> store_ok (snd (upload_candidate e s form))"
proof (cases rule: upload_cases [where form = form and e = e and s = s])
  case (io_failed dob b)
  assume "store_ok s"
  then show ?thesis
    unfolding io_failed(5) by (auto simp: store_ok_def list_all_iff)
next
  case (stored dob b)
  assume ok: "store_ok s"
  let ?c = "out_of b (NEXT_ID s) (upload_path s form) (utcnow e)"
  have u: "AList.update (NEXT_ID s) ?c (CANDIDATES s) = CANDIDATES s @ [(NEXT_ID s, ?c)]"
    using store_ok_fresh [OF ok] by (rule update_fresh)
  have "id_field ?c = NEXT_ID s" by (simp add: out_of_def)
  with ok store_ok_fresh [OF ok] show ?thesis
    unfolding stored(5) by (auto simp: store_ok_def list_all_iff u)
qed simp_all

lemma store_ok_delete: "store_ok s \<Longrightarrow> store_ok (snd (delete_candidate rm s cid))"
proof (cases "map_of (CANDIDATES s) cid")
  case None
  assume "store_ok s"
  with None show ?thesis by (simp add: delete_missing)
next
  case (Some c)
  assume ok: "store_ok s"
  then have d: "distinct (map fst (AList.delete cid (CANDIDATES s)))"
    by (simp add: store_ok_def distinct_delete)
  have "set (AList.delete cid (CANDIDATES s)) \<subseteq> set (CANDIDATES s)"
    by (auto simp: AList.delete_eq)
  with ok have "list_all (\<lambda>(k, c). id_field c = k \<and> k < NEXT_ID s)
                  (AList.delete cid (CANDIDATES s))"
    unfolding store_ok_def list_all_iff by blast
  with d show ?thesis
    unfolding delete_found [OF Some] by (simp add: store_ok_def)
qed

lemma state2_lookup1: "map_of (CANDIDATES state2) 1 = Some cand1"
  by (simp add: state2_def)

lemma state2_ok: "store_ok state2"
  by (simp add: store_ok_def state2_def cand1_def cand2_def out_of_def)

lemma cand1_path: "resume_path cand1 = ''uploads/cv.pdf''"
  by (simp add: cand1_def out_of_def)

section \<open>The filename sanitizer\<close>

text \<open>
  Claim C3. For every input string, the output of \<open>safe_filename\<close> contains only
  characters of the class \<open>[A-Za-z0-9._-]\<close>, is never empty, and neither starts nor ends
  with an underscore; whenever replacing and trimming leaves the empty string (which
  happens in particular when every character of the input is outside the class or an
  underscore), the result is the literal \<open>resume\<close>.
\<close>

theorem safe_filename_output:
  "(\<forall>c \<in> set (safe_filename s).
      c \<in> set ''abcdefghijklmnopqrstuvwxyzABCDEFGHIJKLMNOPQRSTUVWXYZ0123456789._-'') \<and>
   safe_filename s \<noteq> [] \<and>
   hd (safe_filename s) \<noteq> CHR ''_'' \<and>
   last (safe_filename s) \<noteq> CHR ''_'' \<and>
   (strip_chars (\<lambda>c. c = CHR ''_'') (re_sub_runs (\<lambda>c. \<not> safe_class c) ''_'' s) = []
      \<longrightarrow> safe_filename s = ''resume'') \<and>
   ((\<forall>c \<in> set s. \<not> safe_class c \<or> c = CHR ''_'') \<longrightarrow> safe_filename s = ''resume'')"
proof -
  let ?r = "re_sub_runs (\<lambda>c. \<not> safe_class c) ''_'' s"
  have fallback: "strip_chars (\<lambda>c. c = CHR ''_'') ?r = [] \<longrightarrow> safe_filename s = ''resume''"
    by (simp add: safe_filename_def)
  have all: "(\<forall>c \<in> set s. \<not> safe_class c \<or> c = CHR ''_'') \<longrightarrow> safe_filename s = ''resume''"
  proof
    assume a: "\<forall>c \<in> set s. \<not> safe_class c \<or> c = CHR ''_''"
    have "set ?r \<subseteq> set ''_'' \<union> {c \<in> set s. \<not> \<not> safe_class c}"
      by (rule set_re_sub_runs)
    with a have "\<forall>c \<in> set ?r. c = CHR ''_''" by auto
    then have "strip_chars (\<lambda>c. c = CHR ''_'') ?r = []" by (rule strip_chars_all)
    with fallback show "safe_filename s = ''resume''" by (rule_tac mp)
  qed
  from safe_filename_props [of s] fallback all show ?thesis
    unfolding safe_class_enum [symmetric] by (elim conjE, intro conjI)
qed
theorem safe_filename_output_witness:
  "safe_filename ''my cv (1).pdf'' = ''my_cv_1_.pdf'' \<and>
   CHR ''m'' \<in> set ''abcdefghijklmnopqrstuvwxyzABCDEFGHIJKLMNOPQRSTUVWXYZ0123456789._-'' \<and>
   safe_filename ''(_)'' = ''resume''"
proof -
  have 1: "safe_filename ''my cv (1).pdf'' = ''my_cv_1_.pdf''"
    by (simp add: safe_filename_def strip_chars_def safe_class_def in_range_def)
  have 2: "\<forall>c \<in> set ''(_)''. \<not> safe_class c \<or> c = CHR ''_''"
    by (simp add: safe_class_def in_range_def)
  have "\<forall>c \<in> set (safe_filename ''my cv (1).pdf'').
      c \<in> set ''abcdefghijklmnopqrstuvwxyzABCDEFGHIJKLMNOPQRSTUVWXYZ0123456789._-''"
    using safe_filename_output [of "''my cv (1).pdf''"] by (rule conjunct1)
  moreover have "CHR ''m'' \<in> set (safe_filename ''my cv (1).pdf'')" unfolding 1 by simp
  ultimately have 3:
    "CHR ''m'' \<in> set ''abcdefghijklmnopqrstuvwxyzABCDEFGHIJKLMNOPQRSTUVWXYZ0123456789._-''"
    by (rule bspec)
  have "(\<forall>c \<in> set ''(_)''. \<not> safe_class c \<or> c = CHR ''_'') \<longrightarrow> safe_filename ''(_)'' = ''resume''"
    using safe_filename_output [of "''(_)''"] by (elim conjE)
  then have 4: "safe_filename ''(_)'' = ''resume''" using 2 by (rule mp)
  from 1 3 4 show ?thesis by (intro conjI)
qed

text \<open>
  Claim C9. \<open>safe_filename\<close> is idempotent: applied to its own output, it returns that
  output unchanged.
\<close>

theorem safe_filename_idem: "safe_filename (safe_filename s) = safe_filename s"
proof -
  let ?r = "safe_filename s"
  note p = safe_filename_props [of s]
  then have 1: "re_sub_runs (\<lambda>c. \<not> safe_class c) ''_'' ?r = ?r"
    by (simp add: re_sub_runs_id)
  from p have 2: "strip_chars (\<lambda>c. c = CHR ''_'') ?r = ?r"
    by (simp add: strip_chars_id)
  have "safe_filename ?r =
          (let name1 = strip_chars (\<lambda>c. c = CHR ''_'')
                         (re_sub_runs (\<lambda>c. \<not> safe_class c) ''_'' ?r)
           in if name1 = [] then ''resume'' else name1)"
    by (rule safe_filename_def)
  also have "\<dots> = ?r" using p by (simp only: 1 2 Let_def if_False)
  finally show ?thesis .
qed

section \<open>The creation protocol\<close>

lemma store_ok_lookup_None: "store_ok s \<Longrightarrow> map_of (CANDIDATES s) (NEXT_ID s) = None"
proof -
  assume "store_ok s"
  then have "\<forall>(k, c) \<in> set (CANDIDATES s). k < NEXT_ID s"
    by (auto simp: store_ok_def list_all_iff)
  then have "NEXT_ID s \<notin> fst ` set (CANDIDATES s)" by force
  then show ?thesis by (simp add: map_of_eq_None_iff)
qed

text \<open>
  Claim C1, as amended. A creation request that fails after the id has been allocated
  (it ends in an exception no handler catches) leaves the record map exactly as it was,
  so no record for that id is observable in the store, and its effect on disk is confined
  to the request's own target path: every other file is untouched, and when the failure
  is in reading the upload or in opening the file, the filesystem is unchanged
  altogether. The id is not given back: the counter stays advanced by one. A request that
  fails earlier changes nothing at all, and a request that succeeds stores its record
  under the allocated id with the file written in full at the record's path.
\<close>

theorem upload_failure_after_allocation:
  "(upload_candidate e s form = (Inl Uncaught, s') \<longrightarrow>
      CANDIDATES s' = CANDIDATES s \<and> NEXT_ID s' = NEXT_ID s + 1 \<and>
      (store_ok s \<longrightarrow> get_candidate s' (NEXT_ID s) = Inl NotFound) \<and>
      (resume_io e = ReadFails \<or> resume_io e = OpenFails \<longrightarrow> files s' = files s) \<and>
      (\<forall>p. p \<noteq> upload_path s form \<longrightarrow> files s' p = files s p)) \<and>
   (upload_candidate e s form = (Inl err, s') \<and> err \<noteq> Uncaught \<longrightarrow> s' = s) \<and>
   (upload_candidate e s form = (Inr c, s') \<longrightarrow>
      files s' (resume_path c) = Some (content (Resume_form form)) \<and>
      map_of (CANDIDATES s') (id_field c) = Some c \<and> id_field c = NEXT_ID s)"
proof (cases rule: upload_cases [where form = form and e = e and s = s])
  case bad_type
  then show ?thesis by auto
next
  case bad_date
  then show ?thesis by auto
next
  case (invalid dob errs)
  then show ?thesis by auto
next
  case (io_failed dob b)
  have "resume_io e = ReadFails \<or> resume_io e = OpenFails \<longrightarrow>
        snd (write_file (resume_io e) (files s) (upload_path s form)
               (content (Resume_form form))) = files s"
    by (auto simp: write_file_def)
  with io_failed(5) show ?thesis
    by (auto simp: write_file_other get_candidate_def store_ok_lookup_None)
next
  case (stored dob b)
  from stored(5) show ?thesis
    by (auto simp: out_of_def update_conv)
qed

text \<open>
  The claim as it was stated fails when the write breaks off after the file has been
  opened: the request below ends in the uncaught exception, no record is stored, yet a
  file that did not exist before is now on disk, empty, and the counter has moved from
  1 to 2.
\<close>

theorem upload_failure_counterexample:
  "fst (upload_candidate (env0 (WriteFails 0)) (init_state Map.empty) (form0 ''cv.pdf''))
     = Inl Uncaught \<and>
   files (init_state Map.empty) ''uploads/cv.pdf'' = None \<and>
   files (snd (upload_candidate (env0 (WriteFails 0)) (init_state Map.empty) (form0 ''cv.pdf'')))
     ''uploads/cv.pdf'' = Some [] \<and>
   CANDIDATES (snd (upload_candidate (env0 (WriteFails 0)) (init_state Map.empty)
     (form0 ''cv.pdf''))) = [] \<and>
   NEXT_ID (init_state Map.empty) = 1 \<and>
   NEXT_ID (snd (upload_candidate (env0 (WriteFails 0)) (init_state Map.empty)
     (form0 ''cv.pdf''))) = 2"
  by code_simp

theorem upload_failure_after_allocation_witness:
  "upload_candidate (env0 OpenFails) (init_state Map.empty) (form0 ''cv.pdf'') =
     (Inl Uncaught, \<lparr>CANDIDATES = [], NEXT_ID = 2, files = Map.empty\<rparr>) \<and>
   store_ok (init_state Map.empty) \<and>
   get_candidate \<lparr>CANDIDATES = [], NEXT_ID = 2, files = Map.empty\<rparr> 1 = Inl NotFound"
proof -
  let ?s0 = "init_state Map.empty"
  let ?s1 = "\<lparr>CANDIDATES = [], NEXT_ID = 2, files = Map.empty\<rparr> :: state"
  have ext: "upload_ext (form0 ''cv.pdf'') \<in> ALLOWED_EXTENSIONS" by code_simp
  have dob: "fromisoformat (env0 OpenFails) (DOB_form (form0 ''cv.pdf'')) = Some date_1990"
    by (simp add: env0_def form0_def)
  have b: "upload_base (env0 OpenFails) (form0 ''cv.pdf'') date_1990 = Inr base0"
    by code_simp
  have 1: "upload_candidate (env0 OpenFails) ?s0 (form0 ''cv.pdf'') = (Inl Uncaught, ?s1)"
    unfolding upload_valid [OF ext dob b]
    by (simp add: env0_def write_file_def init_state_def)
  have 2: "store_ok ?s0" by (simp add: store_ok_def init_state_def)
  have "NEXT_ID ?s0 = 1" by (simp add: init_state_def)
  with upload_failure_after_allocation [of "env0 OpenFails" ?s0 "form0 ''cv.pdf''" ?s1] 1 2
  have "get_candidate ?s1 1 = Inl NotFound" by simp
  with 1 2 show ?thesis by simp
qed

section \<open>The skills parser\<close>

lemma subseq_mem: "subseq xs ys \<Longrightarrow> x \<in> set xs \<Longrightarrow> x \<in> set ys"
  by (erule list_emb_set) auto

text \<open>
  Claim C4. For every raw string, \<open>parse_skills\<close> splits at the commas (no piece holds a
  comma, and the pieces joined by commas give the input back), trims white space around
  each piece, drops the empty pieces, and removes duplicates up to case: its output is a
  subsequence of the trimmed non-empty pieces, no two elements have the same lower-cased
  form, every piece's lower-cased form is represented, and each element is the first piece
  with its lower-cased form, in its original casing. No element is empty or made of white
  space only. The input \<open>Python, python, SQL\<close> gives \<open>Python\<close> and \<open>SQL\<close>.
\<close>

theorem parse_skills_spec:
  "(\<forall>p \<in> set (split_on CHR '','' raw). CHR '','' \<notin> set p) \<and>
   concat (map (\<lambda>p. p @ '','') (split_on CHR '','' raw)) = raw @ '','' \<and>
   subseq (parse_skills raw) (filter (\<lambda>p. p \<noteq> []) (map strip (split_on CHR '','' raw))) \<and>
   distinct (map lower (parse_skills raw)) \<and>
   lower ` set (parse_skills raw) =
     lower ` set (filter (\<lambda>p. p \<noteq> []) (map strip (split_on CHR '','' raw))) \<and>
   (\<forall>x \<in> set (parse_skills raw).
      find (\<lambda>p. lower p = lower x)
        (filter (\<lambda>p. p \<noteq> []) (map strip (split_on CHR '','' raw))) = Some x) \<and>
   (\<forall>x \<in> set (parse_skills raw).
      x \<noteq> [] \<and> \<not> list_all isspace x \<and> \<not> isspace (hd x) \<and> \<not> isspace (last x)) \<and>
   parse_skills ''Python, python, SQL'' = [''Python'', ''SQL'']"
proof -
  let ?pieces = "filter (\<lambda>p. p \<noteq> []) (map strip (split_on CHR '','' raw))"
  have out: "parse_skills raw = unique_loop ?pieces {} []"
    by (simp add: parse_skills_def Let_def)
  have 1: "\<forall>p \<in> set (split_on CHR '','' raw). CHR '','' \<notin> set p"
    by (intro ballI) (erule split_on_no_sep)
  have 2: "concat (map (\<lambda>p. p @ '','') (split_on CHR '','' raw)) = raw @ '',''"
    by (rule split_on_join)
  have 3: "subseq (parse_skills raw) ?pieces"
    unfolding out by (rule unique_loop_subseq)
  have 4: "distinct (map lower (parse_skills raw))"
    unfolding out by (rule unique_loop_distinct)
  have 5: "lower ` set (parse_skills raw) = lower ` set ?pieces"
    unfolding out unique_loop_keys by simp
  have 6: "\<forall>x \<in> set (parse_skills raw). find (\<lambda>p. lower p = lower x) ?pieces = Some x"
    unfolding out by (intro ballI) (erule unique_loop_first)
  have 7: "\<forall>x \<in> set (parse_skills raw).
      x \<noteq> [] \<and> \<not> list_all isspace x \<and> \<not> isspace (hd x) \<and> \<not> isspace (last x)"
  proof
    fix x assume "x \<in> set (parse_skills raw)"
    with 3 have "x \<in> set ?pieces" by (rule subseq_mem)
    then have ne: "x \<noteq> []" and "x \<in> strip ` set (split_on CHR '','' raw)" by simp_all
    then obtain y where x: "x = strip y" by (rule_tac imageE)
    from ne have ne': "strip y \<noteq> []" unfolding x .
    from strip_not_blank [OF ne'] have h: "\<not> isspace (hd x)" and l: "\<not> isspace (last x)"
      unfolding x by (rule conjunct1, rule conjunct2)
    from ne obtain a as where c: "x = a # as" by (cases x) simp_all
    with h have "\<not> list_all isspace x" by simp
    with ne h l show "x \<noteq> [] \<and> \<not> list_all isspace x \<and> \<not> isspace (hd x) \<and> \<not> isspace (last x)"
      by (intro conjI)
  qed
  from 1 2 3 4 5 6 7 parse_skills_example show ?thesis by (intro conjI)
qed

theorem parse_skills_spec_witness:
  "''SQL'' \<in> set (parse_skills ''Python, python, SQL'') \<and>
   \<not> list_all isspace ''SQL'' \<and>
   find (\<lambda>p. lower p = lower ''SQL'')
     (filter (\<lambda>p. p \<noteq> []) (map strip (split_on CHR '','' ''Python, python, SQL''))) =
     Some ''SQL''"
proof -
  let ?raw = "''Python, python, SQL''"
  have m: "''SQL'' \<in> set (parse_skills ?raw)" by (simp add: parse_skills_example)
  note t = parse_skills_spec [of ?raw]
  from t have "\<forall>x \<in> set (parse_skills ?raw).
      find (\<lambda>p. lower p = lower x)
        (filter (\<lambda>p. p \<noteq> []) (map strip (split_on CHR '','' ?raw))) = Some x"
    by (elim conjE)
  then have a: "find (\<lambda>p. lower p = lower ''SQL'')
        (filter (\<lambda>p. p \<noteq> []) (map strip (split_on CHR '','' ?raw))) = Some ''SQL''"
    using m by (rule bspec)
  from t have "\<forall>x \<in> set (parse_skills ?raw).
      x \<noteq> [] \<and> \<not> list_all isspace x \<and> \<not> isspace (hd x) \<and> \<not> isspace (last x)"
    by (elim conjE)
  then have "''SQL'' \<noteq> [] \<and> \<not> list_all isspace ''SQL'' \<and> \<not> isspace (hd ''SQL'') \<and>
      \<not> isspace (last ''SQL'')"
    using m by (rule bspec)
  then have b: "\<not> list_all isspace ''SQL''" by (elim conjE)
  from m b a show ?thesis by (intro conjI)
qed

section \<open>The contact number\<close>



section \<open>The date of birth\<close>

text \<open>
  Claim C6. The validator of the date of birth rejects, with \<open>FutureDate\<close>, exactly when
  the date is strictly after the current date, and returns the date otherwise; a date
  equal to today is accepted. Constructing a \<open>CandidateBase\<close>, and a creation request
  whose file type and date string were accepted, report \<open>FutureDate\<close> under the same
  condition. The date 2999-01-01 is rejected on every day before the year 2999.
\<close>

theorem validate_dob_future:
  "((validate_dob td v = Inl FutureDate) = date_gt v td) \<and>
   ((validate_dob td v = Inr v) = (\<not> date_gt v td)) \<and>
   validate_dob td td = Inr td \<and>
   ((\<exists>errs. CandidateBase_init td fn v cn ad q gy ye sk = Inl errs \<and> FutureDate \<in> set errs) =
      date_gt v td) \<and>
   (upload_ext form \<in> ALLOWED_EXTENSIONS \<and> fromisoformat e (DOB_form form) = Some v \<longrightarrow>
      (\<exists>errs. fst (upload_candidate e s form) = Inl (ValidationFailed errs) \<and>
              FutureDate \<in> set errs) = date_gt v (today e)) \<and>
   (year td < 2999 \<longrightarrow> validate_dob td date_2999 = Inl FutureDate)"
proof -
  have 1: "(validate_dob td v = Inl FutureDate) = date_gt v td"
    and 2: "(validate_dob td v = Inr v) = (\<not> date_gt v td)"
    and 3: "validate_dob td td = Inr td"
    by (simp_all add: validate_dob_def date_gt_def)
  have 6: "year td < 2999 \<longrightarrow> validate_dob td date_2999 = Inl FutureDate"
    by (simp add: validate_dob_def date_gt_def date_2999_def)
  have 5: "upload_ext form \<in> ALLOWED_EXTENSIONS \<and> fromisoformat e (DOB_form form) = Some v \<longrightarrow>
      (\<exists>errs. fst (upload_candidate e s form) = Inl (ValidationFailed errs) \<and>
              FutureDate \<in> set errs) = date_gt v (today e)"
  proof
    assume a: "upload_ext form \<in> ALLOWED_EXTENSIONS \<and> fromisoformat e (DOB_form form) = Some v"
    have "(\<exists>errs. fst (upload_candidate e s form) = Inl (ValidationFailed errs) \<and>
              FutureDate \<in> set errs) =
          (\<exists>errs. upload_base e form v = Inl errs \<and> FutureDate \<in> set errs)"
      using a by (cases rule: upload_cases [where form = form and e = e and s = s]) auto
    also have "\<dots> = date_gt v (today e)"
      unfolding upload_base_def by (rule CandidateBase_init_future)
    finally show "(\<exists>errs. fst (upload_candidate e s form) = Inl (ValidationFailed errs) \<and>
              FutureDate \<in> set errs) = date_gt v (today e)" .
  qed
  from 1 2 3 CandidateBase_init_future 5 6 show ?thesis by (intro conjI)
qed

theorem validate_dob_future_witness:
  "year \<lparr>year = 2024, month = 6, day = 15\<rparr> < 2999 \<and>
   validate_dob \<lparr>year = 2024, month = 6, day = 15\<rparr> date_2999 = Inl FutureDate"
proof -
  have y: "year \<lparr>year = 2024, month = 6, day = 15\<rparr> < 2999" by simp
  have "year \<lparr>year = 2024, month = 6, day = 15\<rparr> < 2999 \<longrightarrow>
        validate_dob \<lparr>year = 2024, month = 6, day = 15\<rparr> date_2999 = Inl FutureDate"
    by (rule validate_dob_future [THEN conjunct2, THEN conjunct2, THEN conjunct2,
          THEN conjunct2, THEN conjunct2])
  then have "validate_dob \<lparr>year = 2024, month = 6, day = 15\<rparr> date_2999 = Inl FutureDate"
    using y by (rule mp)
  with y show ?thesis by (intro conjI)
qed

section \<open>The file type gate\<close>

text \<open>
  Claim C7. A creation request is rejected with \<open>UnsupportedFileType\<close> if and only if
  the extension of the uploaded filename, lower-cased, is not one of \<open>.pdf\<close>, \<open>.doc\<close>,
  \<open>.docx\<close>; the rejection carries that extension, or \<open>unknown\<close> when the filename has
  none, and leaves the state as it was. A file named \<open>resume.txt\<close> is rejected.
\<close>

theorem upload_file_type_gate:
  "((\<exists>x. fst (upload_candidate e s form) = Inl (UnsupportedFileType x)) =
      (upload_ext form \<notin> {''.pdf'', ''.doc'', ''.docx''})) \<and>
   (upload_ext form \<notin> {''.pdf'', ''.doc'', ''.docx''} \<longrightarrow>
      upload_candidate e s form =
        (Inl (UnsupportedFileType (if upload_ext form = [] then ''unknown''
                                   else upload_ext form)), s)) \<and>
   upload_ext form =
      lower (snd (splitext (case filename (Resume_form form) of None \<Rightarrow> [] | Some n \<Rightarrow> n))) \<and>
   (filename (Resume_form form) = Some ''resume.txt'' \<longrightarrow>
      upload_candidate e s form = (Inl (UnsupportedFileType ''.txt''), s))"
proof -
  have A: "ALLOWED_EXTENSIONS = {''.pdf'', ''.doc'', ''.docx''}"
    by (rule ALLOWED_EXTENSIONS_def)
  have 1: "(\<exists>x. fst (upload_candidate e s form) = Inl (UnsupportedFileType x)) =
      (upload_ext form \<notin> ALLOWED_EXTENSIONS)"
    by (cases rule: upload_cases [where form = form and e = e and s = s]) auto
  have 2: "upload_ext form \<notin> ALLOWED_EXTENSIONS \<longrightarrow>
      upload_candidate e s form =
        (Inl (UnsupportedFileType (if upload_ext form = [] then ''unknown''
                                   else upload_ext form)), s)"
    by (simp add: upload_bad_type)
  have 3: "upload_ext form =
      lower (snd (splitext (case filename (Resume_form form) of None \<Rightarrow> [] | Some n \<Rightarrow> n)))"
    by (rule upload_ext_def)
  have lt: "lower (snd (splitext ''resume.txt'')) = ''.txt''" by code_simp
  have 4: "filename (Resume_form form) = Some ''resume.txt'' \<longrightarrow>
      upload_candidate e s form = (Inl (UnsupportedFileType ''.txt''), s)"
  proof
    assume "filename (Resume_form form) = Some ''resume.txt''"
    then have x: "upload_ext form = ''.txt''" by (simp add: upload_ext_def lt)
    then have "upload_ext form \<notin> ALLOWED_EXTENSIONS" by (simp add: A)
    then show "upload_candidate e s form = (Inl (UnsupportedFileType ''.txt''), s)"
      using upload_bad_type [of form e s] x by simp
  qed
  from 1 2 3 4 show ?thesis unfolding A by (intro conjI)
qed

theorem upload_file_type_gate_witness:
  "filename (Resume_form (form0 ''resume.txt'')) = Some ''resume.txt'' \<and>
   upload_candidate (env0 IoOk) state1 (form0 ''resume.txt'') =
     (Inl (UnsupportedFileType ''.txt''), state1)"
proof -
  have f: "filename (Resume_form (form0 ''resume.txt'')) = Some ''resume.txt''"
    by (simp add: form0_def)
  have "filename (Resume_form (form0 ''resume.txt'')) = Some ''resume.txt'' \<longrightarrow>
      upload_candidate (env0 IoOk) state1 (form0 ''resume.txt'') =
        (Inl (UnsupportedFileType ''.txt''), state1)"
    by (rule upload_file_type_gate [THEN conjunct2, THEN conjunct2, THEN conjunct2])
  then have "upload_candidate (env0 IoOk) state1 (form0 ''resume.txt'') =
        (Inl (UnsupportedFileType ''.txt''), state1)"
    using f by (rule mp)
  with f show ?thesis by (intro conjI)
qed

section \<open>The storage path\<close>

text \<open>
  Claim C2. For every id and original filename, \<open>get_unique_save_path\<close> returns the
  upload directory joined with the safe filename when nothing exists at that path, and
  otherwise the directory joined with base, \<open>_(\<close>, the id in decimal, \<open>)\<close> and extension,
  where base and extension split the safe name. It looks at no other path: the second
  one is returned even when every path is occupied. When two requests that both upload a
  file named \<open>cv.pdf\<close> are stored one after the other, the second record's path is
  \<open>uploads/cv_(\<close>, its id, \<open>).pdf\<close>.
\<close>

theorem get_unique_save_path_spec:
  "get_unique_save_path ex cid name =
     (if \<not> ex (''uploads/'' @ safe_filename name) then ''uploads/'' @ safe_filename name
      else ''uploads/'' @ fst (splitext (safe_filename name)) @ ''_('' @ str_int cid @ '')'' @
           snd (splitext (safe_filename name))) \<and>
   fst (splitext (safe_filename name)) @ snd (splitext (safe_filename name)) =
     safe_filename name \<and>
   get_unique_save_path (\<lambda>p. True) cid name =
     ''uploads/'' @ fst (splitext (safe_filename name)) @ ''_('' @ str_int cid @ '')'' @
     snd (splitext (safe_filename name)) \<and>
   (upload_candidate e1 s form1 = (Inr c1, s1) \<and>
    upload_candidate e2 s1 form2 = (Inr c2, s2) \<and>
    filename (Resume_form form1) = Some ''cv.pdf'' \<and>
    filename (Resume_form form2) = Some ''cv.pdf'' \<longrightarrow>
      resume_path c2 = ''uploads/cv_('' @ str_int (id_field c2) @ '').pdf'')"
proof -
  have 3: "get_unique_save_path (\<lambda>p. True) cid name =
     ''uploads/'' @ fst (splitext (safe_filename name)) @ ''_('' @ str_int cid @ '')'' @
     snd (splitext (safe_filename name))"
    by (simp add: get_unique_save_path_eq)
  have 4: "upload_candidate e1 s form1 = (Inr c1, s1) \<and>
    upload_candidate e2 s1 form2 = (Inr c2, s2) \<and>
    filename (Resume_form form1) = Some ''cv.pdf'' \<and>
    filename (Resume_form form2) = Some ''cv.pdf'' \<longrightarrow>
      resume_path c2 = ''uploads/cv_('' @ str_int (id_field c2) @ '').pdf''"
  proof
    assume a: "upload_candidate e1 s form1 = (Inr c1, s1) \<and>
      upload_candidate e2 s1 form2 = (Inr c2, s2) \<and>
      filename (Resume_form form1) = Some ''cv.pdf'' \<and>
      filename (Resume_form form2) = Some ''cv.pdf''"
    then have u1: "upload_candidate e1 s form1 = (Inr c1, s1)"
      and u2: "upload_candidate e2 s1 form2 = (Inr c2, s2)"
      and f1: "filename (Resume_form form1) = Some ''cv.pdf''"
      and f2: "filename (Resume_form form2) = Some ''cv.pdf''" by simp_all
    from u1 have "files s1 = (files s)(upload_path s form1 \<mapsto> content (Resume_form form1))"
      by (rule upload_stored_D) simp
    then have taken: "files s1 ''uploads/cv.pdf'' \<noteq> None"
      by (simp add: cv_path [OF f1])
    from u2 have "resume_path c2 = upload_path s1 form2 \<and> id_field c2 = NEXT_ID s1"
      by (rule upload_stored_D) (simp add: out_of_def)
    with taken show "resume_path c2 = ''uploads/cv_('' @ str_int (id_field c2) @ '').pdf''"
      by (simp add: cv_path [OF f2])
  qed
  from get_unique_save_path_eq splitext_append 3 4 show ?thesis by (intro conjI)
qed

theorem get_unique_save_path_spec_witness:
  "upload_candidate (env0 IoOk) (init_state Map.empty) (form0 ''cv.pdf'') = (Inr cand1, state1) \<and>
   upload_candidate (env0 IoOk) state1 (form0 ''cv.pdf'') = (Inr cand2, state2) \<and>
   filename (Resume_form (form0 ''cv.pdf'')) = Some ''cv.pdf'' \<and>
   resume_path cand2 = ''uploads/cv_('' @ str_int (id_field cand2) @ '').pdf'' \<and>
   resume_path cand2 = ''uploads/cv_(2).pdf''"
proof -
  have f: "filename (Resume_form (form0 ''cv.pdf'')) = Some ''cv.pdf''"
    by (simp add: form0_def)
  have "upload_candidate (env0 IoOk) (init_state Map.empty) (form0 ''cv.pdf'') = (Inr cand1, state1) \<and>
    upload_candidate (env0 IoOk) state1 (form0 ''cv.pdf'') = (Inr cand2, state2) \<and>
    filename (Resume_form (form0 ''cv.pdf'')) = Some ''cv.pdf'' \<and>
    filename (Resume_form (form0 ''cv.pdf'')) = Some ''cv.pdf'' \<longrightarrow>
      resume_path cand2 = ''uploads/cv_('' @ str_int (id_field cand2) @ '').pdf''"
    by (rule get_unique_save_path_spec [THEN conjunct2, THEN conjunct2, THEN conjunct2])
  moreover have "upload_candidate (env0 IoOk) (init_state Map.empty) (form0 ''cv.pdf'') = (Inr cand1, state1) \<and>
    upload_candidate (env0 IoOk) state1 (form0 ''cv.pdf'') = (Inr cand2, state2) \<and>
    filename (Resume_form (form0 ''cv.pdf'')) = Some ''cv.pdf'' \<and>
    filename (Resume_form (form0 ''cv.pdf'')) = Some ''cv.pdf''"
    using upload_first upload_second f by (intro conjI)
  ultimately have r: "resume_path cand2 = ''uploads/cv_('' @ str_int (id_field cand2) @ '').pdf''"
    by (rule mp)
  have p: "resume_path cand2 = ''uploads/cv_(2).pdf''" by (simp add: cand2_def out_of_def)
  from upload_first upload_second f r p show ?thesis by (intro conjI)
qed

section \<open>Deletion\<close>

text \<open>
  Claim C8. Deleting an id that has a record succeeds whether or not the file can be
  removed or exists; afterwards the record map has no entry for the id, looking the id up
  gives \<open>NotFound\<close>, and no listing, under any filter, returns a record with that id (in a
  store where every record sits under its own id, which the operations maintain). When
  the removal of the file succeeds, no file exists at the record's path afterwards.
  Deleting an id that has no record gives \<open>NotFound\<close> and changes nothing.
\<close>

theorem delete_candidate_removes:
  "(map_of (CANDIDATES s) cid = Some c \<longrightarrow>
      fst (delete_candidate rm s cid) = Inr ''deleted successfully'' \<and>
      map_of (CANDIDATES (snd (delete_candidate rm s cid))) cid = None \<and>
      get_candidate (snd (delete_candidate rm s cid)) cid = Inl NotFound \<and>
      (store_ok s \<longrightarrow>
         (\<forall>c' \<in> set (list_candidates (snd (delete_candidate rm s cid)) sk me gy).
            id_field c' \<noteq> cid)) \<and>
      (rm \<and> resume_path c \<noteq> [] \<longrightarrow>
         files (snd (delete_candidate rm s cid)) (resume_path c) = None)) \<and>
   (map_of (CANDIDATES s) cid = None \<longrightarrow> delete_candidate rm s cid = (Inl NotFound, s))"
proof -
  have A: "map_of (CANDIDATES s) cid = Some c \<longrightarrow>
      fst (delete_candidate rm s cid) = Inr ''deleted successfully'' \<and>
      map_of (CANDIDATES (snd (delete_candidate rm s cid))) cid = None \<and>
      get_candidate (snd (delete_candidate rm s cid)) cid = Inl NotFound \<and>
      (store_ok s \<longrightarrow>
         (\<forall>c' \<in> set (list_candidates (snd (delete_candidate rm s cid)) sk me gy).
            id_field c' \<noteq> cid)) \<and>
      (rm \<and> resume_path c \<noteq> [] \<longrightarrow>
         files (snd (delete_candidate rm s cid)) (resume_path c) = None)"
  proof
    assume f: "map_of (CANDIDATES s) cid = Some c"
    let ?s' = "snd (delete_candidate rm s cid)"
    note d = delete_found [OF f, of rm]
    have 1: "fst (delete_candidate rm s cid) = Inr ''deleted successfully''"
      by (simp add: d)
    have cs: "CANDIDATES ?s' = AList.delete cid (CANDIDATES s)" by (simp add: d)
    have 2: "map_of (CANDIDATES ?s') cid = None" by (simp add: cs delete_conv)
    then have 3: "get_candidate ?s' cid = Inl NotFound" by (simp add: get_candidate_def)
    have 4: "store_ok s \<longrightarrow> (\<forall>c' \<in> set (list_candidates ?s' sk me gy). id_field c' \<noteq> cid)"
    proof (intro impI ballI)
      fix c' assume ok: "store_ok s" and "c' \<in> set (list_candidates ?s' sk me gy)"
      with set_list_candidates have "c' \<in> snd ` set (CANDIDATES ?s')" by blast
      then have "c' \<in> snd ` set (AList.delete cid (CANDIDATES s))" by (simp only: cs)
      with ok show "id_field c' \<noteq> cid" by (rule store_ok_delete_ids)
    qed
    have 5: "rm \<and> resume_path c \<noteq> [] \<longrightarrow> files ?s' (resume_path c) = None"
      by (simp add: delete_found [OF f])
    from 1 2 3 4 5 show "fst (delete_candidate rm s cid) = Inr ''deleted successfully'' \<and>
      map_of (CANDIDATES ?s') cid = None \<and> get_candidate ?s' cid = Inl NotFound \<and>
      (store_ok s \<longrightarrow> (\<forall>c' \<in> set (list_candidates ?s' sk me gy). id_field c' \<noteq> cid)) \<and>
      (rm \<and> resume_path c \<noteq> [] \<longrightarrow> files ?s' (resume_path c) = None)"
      by (intro conjI)
  qed
  have B: "map_of (CANDIDATES s) cid = None \<longrightarrow> delete_candidate rm s cid = (Inl NotFound, s)"
    by (simp add: delete_missing)
  from A B show ?thesis by (rule conjI)
qed

theorem delete_candidate_removes_witness:
  "map_of (CANDIDATES state2) 1 = Some cand1 \<and>
   files state2 ''uploads/cv.pdf'' = Some ''%PDF-1.4'' \<and>
   fst (delete_candidate True state2 1) = Inr ''deleted successfully'' \<and>
   get_candidate (snd (delete_candidate True state2 1)) 1 = Inl NotFound \<and>
   cand2 \<in> set (list_candidates (snd (delete_candidate True state2 1)) None None None) \<and>
   id_field cand2 \<noteq> 1 \<and>
   files (snd (delete_candidate True state2 1)) ''uploads/cv.pdf'' = None"
proof -
  let ?s' = "snd (delete_candidate True state2 1)"
  have "map_of (CANDIDATES state2) 1 = Some cand1 \<longrightarrow>
      fst (delete_candidate True state2 1) = Inr ''deleted successfully'' \<and>
      map_of (CANDIDATES ?s') 1 = None \<and>
      get_candidate ?s' 1 = Inl NotFound \<and>
      (store_ok state2 \<longrightarrow>
         (\<forall>c' \<in> set (list_candidates ?s' None None None). id_field c' \<noteq> 1)) \<and>
      (True \<and> resume_path cand1 \<noteq> [] \<longrightarrow> files ?s' (resume_path cand1) = None)"
    by (rule delete_candidate_removes [THEN conjunct1])
  then have all: "fst (delete_candidate True state2 1) = Inr ''deleted successfully'' \<and>
      map_of (CANDIDATES ?s') 1 = None \<and>
      get_candidate ?s' 1 = Inl NotFound \<and>
      (store_ok state2 \<longrightarrow>
         (\<forall>c' \<in> set (list_candidates ?s' None None None). id_field c' \<noteq> 1)) \<and>
      (True \<and> resume_path cand1 \<noteq> [] \<longrightarrow> files ?s' (resume_path cand1) = None)"
    using state2_lookup1 by (rule mp)
  from all have 1: "fst (delete_candidate True state2 1) = Inr ''deleted successfully''"
    by (rule conjunct1)
  from all have 3: "get_candidate ?s' 1 = Inl NotFound"
    by (rule conjunct2 [THEN conjunct2, THEN conjunct1])
  from all have "store_ok state2 \<longrightarrow>
         (\<forall>c' \<in> set (list_candidates ?s' None None None). id_field c' \<noteq> 1)"
    by (rule conjunct2 [THEN conjunct2, THEN conjunct2, THEN conjunct1])
  then have b: "\<forall>c' \<in> set (list_candidates ?s' None None None). id_field c' \<noteq> 1"
    using state2_ok by (rule mp)
  have "CANDIDATES ?s' = [(2, cand2)]"
    by (simp add: delete_found [OF state2_lookup1]) (simp add: state2_def)
  then have m: "cand2 \<in> set (list_candidates ?s' None None None)"
    by (simp add: list_candidates_def)
  from b m have 4: "id_field cand2 \<noteq> 1" by (rule bspec)
  from all have "True \<and> resume_path cand1 \<noteq> [] \<longrightarrow> files ?s' (resume_path cand1) = None"
    by (rule conjunct2 [THEN conjunct2, THEN conjunct2, THEN conjunct2])
  moreover have "True \<and> resume_path cand1 \<noteq> []" by (simp add: cand1_path)
  ultimately have "files ?s' (resume_path cand1) = None" by (rule mp)
  then have 5: "files ?s' ''uploads/cv.pdf'' = None" by (simp only: cand1_path)
  have 0: "files state2 ''uploads/cv.pdf'' = Some ''%PDF-1.4''" by (simp add: state2_def)
  from state2_lookup1 0 1 3 m 4 5 show ?thesis by (intro conjI)
qed

text \<open>
  Claim C10. Deleting an id leaves the record of every other id as it was, for the
  record map and for a lookup, keeps the other entries in their order, and leaves the
  counter \<open>NEXT_ID\<close> unchanged, whether or not the id had a record.
\<close>

theorem delete_candidate_frame:
  "(k \<noteq> cid \<longrightarrow>
      map_of (CANDIDATES (snd (delete_candidate rm s cid))) k = map_of (CANDIDATES s) k \<and>
      get_candidate (snd (delete_candidate rm s cid)) k = get_candidate s k) \<and>
   NEXT_ID (snd (delete_candidate rm s cid)) = NEXT_ID s \<and>
   filter (\<lambda>p. fst p \<noteq> cid) (CANDIDATES (snd (delete_candidate rm s cid))) =
     filter (\<lambda>p. fst p \<noteq> cid) (CANDIDATES s)"
proof (cases "map_of (CANDIDATES s) cid")
  case None
  then show ?thesis by (simp add: delete_missing)
next
  case (Some c)
  have "filter (\<lambda>p. fst p \<noteq> cid) (AList.delete cid (CANDIDATES s)) =
        filter (\<lambda>p. fst p \<noteq> cid) (CANDIDATES s)"
    by (rule filter_delete_other)
  then show ?thesis
    by (simp add: delete_found [OF Some] get_candidate_def delete_conv)
qed

theorem delete_candidate_frame_witness:
  "(2::int) \<noteq> 1 \<and>
   map_of (CANDIDATES state2) 2 = Some cand2 \<and>
   map_of (CANDIDATES (snd (delete_candidate True state2 1))) 2 = Some cand2 \<and>
   get_candidate (snd (delete_candidate True state2 1)) 2 = Inr cand2"
proof -
  let ?s' = "snd (delete_candidate True state2 1)"
  have n: "(2::int) \<noteq> 1" by simp
  have "(2::int) \<noteq> 1 \<longrightarrow>
      map_of (CANDIDATES ?s') 2 = map_of (CANDIDATES state2) 2 \<and>
      get_candidate ?s' 2 = get_candidate state2 2"
    by (rule delete_candidate_frame [THEN conjunct1])
  then have e: "map_of (CANDIDATES ?s') 2 = map_of (CANDIDATES state2) 2 \<and>
      get_candidate ?s' 2 = get_candidate state2 2"
    using n by (rule mp)
  have l: "map_of (CANDIDATES state2) 2 = Some cand2" by (simp add: state2_def)
  have g: "get_candidate state2 2 = Inr cand2" by (simp add: get_candidate_def l)
  from e l have 1: "map_of (CANDIDATES ?s') 2 = Some cand2" by simp
  from e g have 2: "get_candidate ?s' 2 = Inr cand2" by simp
  from n l 1 2 show ?thesis by (intro conjI)
qed

end
